theory Spec2Isabelle
  imports Main "HOL-Library.Word"
begin

unbundle bit_operations_syntax

section \<open>Machine types\<close>

text \<open>
  The code runs on a little-endian 32-bit target (ESP32): \<open>uint8_t\<close>, \<open>uint16_t\<close>,
  \<open>uint32_t\<close>/\<open>int32_t\<close> and \<open>size_t\<close> are words of 8, 16, 32 and 32 bits. Signed
  and unsigned values of one width share the word type; \<open>sint\<close> reads the signed value.
\<close>

type_synonym u8 = "8 word"
type_synonym u16 = "16 word"
type_synonym u32 = "32 word"

text \<open>
  Reading memory that the accessed object does not have (past the end of an array) is
  undefined behaviour in C. The model makes it a value: \<open>Overread\<close> for a read past the
  end of the object read from, \<open>Overrun\<close> for a write past the end of the receive buffer.
\<close>

datatype fault = Overread | Overrun

section \<open>Checksum engine: \<open>generate_CRC\<close> and \<open>crc8\<close>\<close>

text \<open>
  One round of the inner loop of \<open>generate_CRC\<close>:
  \<^verbatim>\<open>crc = (crc << 1) ^ ((crc & 0x80) ? poly : 0);\<close>
  The operands are promoted to \<open>int\<close> (32 bits here) and the result is truncated to
  \<open>uint8_t\<close> by the assignment.
\<close>

definition crc_round :: "u8 \<Rightarrow> u8 \<Rightarrow> u8" where
  "crc_round poly crc =
     ucast (push_bit 1 (ucast crc :: u32)
            XOR (if (ucast crc :: u32) AND 0x80 \<noteq> 0 then (ucast poly :: u32) else 0))"

text \<open>\<^verbatim>\<open>for (int shift = 0; shift < 8; ++shift)\<close>: the loop counter runs from \<open>shift\<close> to 8.\<close>

function crc_shift_loop :: "u8 \<Rightarrow> nat \<Rightarrow> u8 \<Rightarrow> u8" where
  "crc_shift_loop poly shift crc =
     (if shift < 8 then crc_shift_loop poly (shift + 1) (crc_round poly crc) else crc)"
  by pat_completeness auto
termination
  by (relation "measure (\<lambda>(poly, shift, crc). 8 - shift)") auto

text \<open>
  \<^verbatim>\<open>for (int idx = 0; idx < 256; ++idx) { uint8_t crc = idx; ...; crc8_table[idx] = crc & 0xff; }\<close>
  The table is the global array \<open>crc8_table[256]\<close>, here a list of 256 bytes that the
  loop updates entry by entry.
\<close>

function generate_CRC_loop :: "u8 \<Rightarrow> nat \<Rightarrow> u8 list \<Rightarrow> u8 list" where
  "generate_CRC_loop poly idx table =
     (if idx < 256
      then generate_CRC_loop poly (idx + 1)
             (table[idx := crc_shift_loop poly 0 (of_nat idx) AND 0xff])
      else table)"
  by pat_completeness auto
termination
  by (relation "measure (\<lambda>(poly, idx, table). 256 - idx)") auto

definition generate_CRC :: "u8 \<Rightarrow> u8 list \<Rightarrow> u8 list" where
  "generate_CRC poly table = generate_CRC_loop poly 0 table"

text \<open>The table before \<open>CRSF_init\<close> has run: \<^verbatim>\<open>static uint8_t crc8_table[256] = {0};\<close>\<close>

definition crc8_table_zero :: "u8 list" where
  "crc8_table_zero = replicate 256 0"

text \<open>
  \<^verbatim>\<open>while (len--) { crc = crc8_table[crc ^ *data++]; }\<close>
  \<open>data\<close> is the list of the bytes of the object that the pointer points into, from the
  pointer on; \<open>len\<close> is a \<open>uint8_t\<close>. Reading more bytes than the object has is \<open>Overread\<close>.
  The index \<open>crc ^ *data\<close> is below 256, inside the table.
\<close>

fun crc8_loop :: "u8 list \<Rightarrow> u8 list \<Rightarrow> nat \<Rightarrow> u8 \<Rightarrow> fault + u8" where
  "crc8_loop table data 0 crc = Inr crc"
| "crc8_loop table [] (Suc len) crc = Inl Overread"
| "crc8_loop table (b # data) (Suc len) crc = crc8_loop table data len (table ! unat (crc XOR b))"

definition crc8 :: "u8 list \<Rightarrow> u8 list \<Rightarrow> u8 \<Rightarrow> fault + u8" where
  "crc8 table data len = crc8_loop table data (unat len) 0"

text \<open>
  The reference the table-driven checksum is compared with: the bitwise CRC-8 that
  processes a byte by XOR-ing it into the register and shifting eight times, with no table.
\<close>

definition crc8_ref_byte :: "u8 \<Rightarrow> u8 \<Rightarrow> u8 \<Rightarrow> u8" where
  "crc8_ref_byte poly crc b =
     ((\<lambda>c. push_bit 1 c XOR (if bit c 7 then poly else 0)) ^^ 8) (crc XOR b)"

definition crc8_ref :: "u8 \<Rightarrow> u8 list \<Rightarrow> u8" where
  "crc8_ref poly bytes = foldl (crc8_ref_byte poly) 0 bytes"


section \<open>Wire and memory representation\<close>

text \<open>
  The declared enumerators of \<open>crsf_type_t\<close> and \<open>crsf_dest_t\<close> and their values; the
  code stores them into \<open>uint8_t\<close> packet bytes.
\<close>

datatype crsf_type_t =
    CRSF_TYPE_CHANNELS | CRSF_TYPE_BATTERY | CRSF_TYPE_GPS | CRSF_TYPE_ALTITUDE
  | CRSF_TYPE_ATTITUDE | CRSF_TYPE_RPM | CRSF_TYPE_TEMP | CRSF_TYPE_LINK_STATISTICS

fun crsf_type_value :: "crsf_type_t \<Rightarrow> u8" where
  "crsf_type_value CRSF_TYPE_CHANNELS = 0x16"
| "crsf_type_value CRSF_TYPE_BATTERY = 0x08"
| "crsf_type_value CRSF_TYPE_GPS = 0x02"
| "crsf_type_value CRSF_TYPE_ALTITUDE = 0x09"
| "crsf_type_value CRSF_TYPE_ATTITUDE = 0x1E"
| "crsf_type_value CRSF_TYPE_RPM = 0x0C"
| "crsf_type_value CRSF_TYPE_TEMP = 0x0D"
| "crsf_type_value CRSF_TYPE_LINK_STATISTICS = 0x14"

datatype crsf_dest_t = CRSF_DEST_FC | CRSF_DEST_RADIO

fun crsf_dest_value :: "crsf_dest_t \<Rightarrow> u8" where
  "crsf_dest_value CRSF_DEST_FC = 0xC8"
| "crsf_dest_value CRSF_DEST_RADIO = 0xEA"

text \<open>
  The bytes of a 16-, 24- and 32-bit value in memory, lowest address first (little-endian
  target), and the toolchain's byte swaps \<open>__bswap16\<close> and \<open>__bswap32\<close>
  (\<open>__builtin_bswap16/32\<close>: the argument is converted to the 16- or 32-bit unsigned type).
\<close>

definition le16 :: "u16 \<Rightarrow> u8 list" where
  "le16 w = [ucast w, ucast (drop_bit 8 w)]"

definition le24 :: "24 word \<Rightarrow> u8 list" where
  "le24 w = [ucast w, ucast (drop_bit 8 w), ucast (drop_bit 16 w)]"

definition le32 :: "u32 \<Rightarrow> u8 list" where
  "le32 w = [ucast w, ucast (drop_bit 8 w), ucast (drop_bit 16 w), ucast (drop_bit 24 w)]"

definition bswap16 :: "u16 \<Rightarrow> u16" where
  "bswap16 x = push_bit 8 x OR drop_bit 8 x"

definition bswap32 :: "u32 \<Rightarrow> u32" where
  "bswap32 x =
     push_bit 24 x OR push_bit 8 (x AND 0xFF00) OR (drop_bit 8 x AND 0xFF00) OR drop_bit 24 x"

text \<open>The value of a byte sequence read as one little-endian number.\<close>

fun le_nat :: "u8 list \<Rightarrow> nat" where
  "le_nat [] = 0"
| "le_nat (b # bs) = unat b + 256 * le_nat bs"

subsection \<open>\<open>crsf_channels_t\<close>\<close>

text \<open>
  A packed struct of sixteen 11-bit unsigned bit-fields, 22 bytes. The compiler allocates
  bit-fields of a packed struct contiguously from the least significant bit of the lowest
  byte, so channel \<open>k\<close> (from 0) is bits \<open>11k .. 11k + 10\<close> of the 22 bytes read as one
  little-endian number.
\<close>

record crsf_channels_t =
  ch1 :: "11 word"
  ch2 :: "11 word"
  ch3 :: "11 word"
  ch4 :: "11 word"
  ch5 :: "11 word"
  ch6 :: "11 word"
  ch7 :: "11 word"
  ch8 :: "11 word"
  ch9 :: "11 word"
  ch10 :: "11 word"
  ch11 :: "11 word"
  ch12 :: "11 word"
  ch13 :: "11 word"
  ch14 :: "11 word"
  ch15 :: "11 word"
  ch16 :: "11 word"

definition bitfield11 :: "u8 list \<Rightarrow> nat \<Rightarrow> 11 word" where
  "bitfield11 bs k = of_nat (drop_bit (11 * k) (le_nat bs))"

text \<open>\<^verbatim>\<open>*(crsf_channels_t *)payload\<close>: the struct whose object bytes are the first 22 bytes.\<close>

definition crsf_channels_of_bytes :: "u8 list \<Rightarrow> crsf_channels_t" where
  "crsf_channels_of_bytes payload =
     (let bs = take 22 payload in
      \<lparr>ch1 = bitfield11 bs 0, ch2 = bitfield11 bs 1, ch3 = bitfield11 bs 2,
       ch4 = bitfield11 bs 3, ch5 = bitfield11 bs 4, ch6 = bitfield11 bs 5,
       ch7 = bitfield11 bs 6, ch8 = bitfield11 bs 7, ch9 = bitfield11 bs 8,
       ch10 = bitfield11 bs 9, ch11 = bitfield11 bs 10, ch12 = bitfield11 bs 11,
       ch13 = bitfield11 bs 12, ch14 = bitfield11 bs 13, ch15 = bitfield11 bs 14,
       ch16 = bitfield11 bs 15\<rparr>)"

text \<open>\<^verbatim>\<open>crsf_channels_t received_channels = {0};\<close>\<close>

definition crsf_channels_zero :: crsf_channels_t where
  "crsf_channels_zero =
     \<lparr>ch1 = 0, ch2 = 0, ch3 = 0, ch4 = 0, ch5 = 0, ch6 = 0, ch7 = 0, ch8 = 0,
      ch9 = 0, ch10 = 0, ch11 = 0, ch12 = 0, ch13 = 0, ch14 = 0, ch15 = 0, ch16 = 0\<rparr>"

subsection \<open>\<open>crsf_link_statistics_t\<close>\<close>

text \<open>Ten one-byte fields (\<open>up_snr\<close> and \<open>down_snr\<close> are \<open>int8_t\<close>), 10 bytes.\<close>

record crsf_link_statistics_t =
  up_rssi_ant1 :: u8
  up_rssi_ant2 :: u8
  up_link_quality :: u8
  up_snr :: u8
  active_antenna :: u8
  rf_profile :: u8
  up_rf_power :: u8
  down_rssi :: u8
  down_link_quality :: u8
  down_snr :: u8

text \<open>\<^verbatim>\<open>*(crsf_link_statistics_t *)payload\<close>, for a payload of at least 10 bytes.\<close>

definition crsf_link_statistics_of_bytes :: "u8 list \<Rightarrow> crsf_link_statistics_t" where
  "crsf_link_statistics_of_bytes payload =
     \<lparr>up_rssi_ant1 = payload ! 0, up_rssi_ant2 = payload ! 1, up_link_quality = payload ! 2,
      up_snr = payload ! 3, active_antenna = payload ! 4, rf_profile = payload ! 5,
      up_rf_power = payload ! 6, down_rssi = payload ! 7, down_link_quality = payload ! 8,
      down_snr = payload ! 9\<rparr>"

definition crsf_link_statistics_zero :: crsf_link_statistics_t where
  "crsf_link_statistics_zero =
     \<lparr>up_rssi_ant1 = 0, up_rssi_ant2 = 0, up_link_quality = 0, up_snr = 0,
      active_antenna = 0, rf_profile = 0, up_rf_power = 0, down_rssi = 0,
      down_link_quality = 0, down_snr = 0\<rparr>"

subsection \<open>\<open>crsf_battery_t\<close>\<close>

text \<open>
  A packed struct of the bit-fields \<open>voltage : 16\<close>, \<open>current : 16\<close>, \<open>capacity : 24\<close>,
  \<open>remaining : 8\<close>; \<open>sizeof\<close> is 8. In memory: voltage in bytes 0-1, current in bytes
  2-3, capacity in bytes 4-6, remaining in byte 7, each lowest byte first.
\<close>

record crsf_battery_t =
  voltage :: u16
  current :: u16
  capacity :: "24 word"
  remaining :: u8

definition crsf_battery_bytes :: "crsf_battery_t \<Rightarrow> u8 list" where
  "crsf_battery_bytes p = le16 (voltage p) @ le16 (current p) @ le24 (capacity p) @ [remaining p]"

subsection \<open>\<open>crsf_gps_t\<close>\<close>

text \<open>A packed struct; \<open>sizeof\<close> is 4 + 4 + 2 + 2 + 2 + 1 = 15.\<close>

record crsf_gps_t =
  latitude :: u32
  longitude :: u32
  groundspeed :: u16
  heading :: u16
  altitude :: u16
  satellites :: u8

definition crsf_gps_bytes :: "crsf_gps_t \<Rightarrow> u8 list" where
  "crsf_gps_bytes p =
     le32 (latitude p) @ le32 (longitude p) @ le16 (groundspeed p) @ le16 (heading p)
     @ le16 (altitude p) @ [satellites p]"

subsection \<open>\<open>int24_t\<close>, \<open>crsf_rpm_t\<close> and \<open>crsf_temp_t\<close>\<close>

record int24_t =
  byte0 :: u8
  byte1 :: u8
  byte2 :: u8

definition int24_bytes :: "int24_t \<Rightarrow> u8 list" where
  "int24_bytes v = [byte0 v, byte1 v, byte2 v]"

text \<open>
  \<open>crsf_rpm_t\<close> and \<open>crsf_temp_t\<close> are packed structs of one byte followed by a flexible
  array member; \<open>sizeof\<close> is 1. The list holds the entries the object was allocated with.
\<close>

record crsf_rpm_t =
  rpm_source_id :: u8
  rpm_value :: "int24_t list"

definition crsf_rpm_bytes :: "crsf_rpm_t \<Rightarrow> u8 list" where
  "crsf_rpm_bytes p = rpm_source_id p # concat (map int24_bytes (rpm_value p))"

record crsf_temp_t =
  temp_source_id :: u8
  temp_value :: "u16 list"

definition crsf_temp_bytes :: "crsf_temp_t \<Rightarrow> u8 list" where
  "crsf_temp_bytes p = temp_source_id p # concat (map le16 (temp_value p))"

text \<open>
  \<^verbatim>\<open>int32_t result = (val.byte2 << 16) | (val.byte1 << 8) | val.byte0;
  if (result & 0x800000) { result |= 0xFF000000; }\<close>
\<close>

definition int24_to_int32 :: "int24_t \<Rightarrow> u32" where
  "int24_to_int32 val =
     (let result = push_bit 16 (ucast (byte2 val)) OR push_bit 8 (ucast (byte1 val))
                   OR ucast (byte0 val) :: u32
      in if result AND 0x800000 \<noteq> 0 then result OR 0xFF000000 else result)"

text \<open>
  \<^verbatim>\<open>result.byte0 = val & 0xFF; result.byte1 = (val >> 8) & 0xFF; result.byte2 = (val >> 16) & 0xFF;\<close>
  \<open>val\<close> is an \<open>int32_t\<close>, and \<open>>>\<close> on it is the arithmetic shift.
\<close>

definition int32_to_int24 :: "u32 \<Rightarrow> int24_t" where
  "int32_to_int24 val =
     \<lparr>byte0 = ucast (val AND 0xFF),
      byte1 = ucast (signed_drop_bit 8 val AND 0xFF),
      byte2 = ucast (signed_drop_bit 16 val AND 0xFF)\<rparr>"

definition bswap24 :: "u32 \<Rightarrow> u32" where
  "bswap24 v =
     push_bit 16 (v AND 0x0000FF) OR (v AND 0x00FF00) OR drop_bit 16 (v AND 0xFF0000)"


section \<open>Frame encoder: \<open>CRSF_send_payload\<close>\<close>

text \<open>
  \<^verbatim>\<open>void CRSF_send_payload(const void *payload, crsf_dest_t destination, crsf_type_t type,
                         uint8_t payload_length)\<close>
  \<open>payload\<close> is the list of the bytes of the object pointed to. The local array
  \<open>packet[payload_length + 4]\<close> is filled in statement by statement; \<open>memcpy\<close> reads
  \<open>payload_length\<close> bytes of the object (\<open>Overread\<close> when it has fewer),
  \<open>crc8\<close> runs from \<open>&packet[2]\<close> over \<open>payload_length + 1\<close> bytes, the sum converted to
  the \<open>uint8_t\<close> parameter. The result is the byte sequence handed to
  \<open>uart_write_bytes\<close>. \<open>table\<close> is the global \<open>crc8_table\<close>.
\<close>

definition CRSF_send_payload ::
  "u8 list \<Rightarrow> u8 list \<Rightarrow> crsf_dest_t \<Rightarrow> crsf_type_t \<Rightarrow> u8 \<Rightarrow> fault + u8 list" where
  "CRSF_send_payload table payload destination type payload_length =
     (let n = unat payload_length;
          packet0 = replicate (n + 4) (0 :: u8);
          packet1 = packet0[0 := crsf_dest_value destination];
          packet2 = packet1[1 := payload_length + 2];
          packet3 = packet2[2 := crsf_type_value type]
      in if length payload < n then Inl Overread
         else
           let packet4 = take 3 packet3 @ take n payload @ drop (3 + n) packet3
           in case crc8 table (drop 2 packet4) (payload_length + 1) of
                Inl f \<Rightarrow> Inl f
              | Inr checksum \<Rightarrow> Inr (packet4[n + 3 := checksum]))"

section \<open>Telemetry senders\<close>

text \<open>
  Each sender works on the caller's struct through the pointer it is given
  (\<^verbatim>\<open>payload_proc = (crsf_battery_t *)payload;\<close>), so the model returns the struct as the
  call leaves it together with the bytes written to the UART.
\<close>

text \<open>
  \<^verbatim>\<open>payload_proc->voltage = __bswap16(payload_proc->voltage);
  payload_proc->current = __bswap16(payload_proc->current);
  payload_proc->capacity = __bswap16(payload_proc->capacity) << 8;
  CRSF_send_payload(payload_proc, dest, CRSF_TYPE_BATTERY, sizeof(crsf_battery_t));\<close>
  The 24-bit field \<open>capacity\<close> is converted to the 16-bit argument of \<open>__bswap16\<close>; the
  swapped value is shifted as an \<open>int\<close> and stored into the 24-bit field.
\<close>

definition CRSF_send_battery_data ::
  "u8 list \<Rightarrow> crsf_dest_t \<Rightarrow> crsf_battery_t \<Rightarrow> fault + (crsf_battery_t \<times> u8 list)" where
  "CRSF_send_battery_data table dest payload =
     (let p1 = payload\<lparr>voltage := bswap16 (voltage payload)\<rparr>;
          p2 = p1\<lparr>current := bswap16 (current p1)\<rparr>;
          p3 = p2\<lparr>capacity :=
                  ucast (push_bit 8 (ucast (bswap16 (ucast (capacity p2) :: u16)) :: u32))\<rparr>
      in case CRSF_send_payload table (crsf_battery_bytes p3) dest CRSF_TYPE_BATTERY 8 of
           Inl f \<Rightarrow> Inl f
         | Inr written \<Rightarrow> Inr (p3, written))"

text \<open>
  \<^verbatim>\<open>payload_proc->latitude = __bswap32(payload_proc->latitude);
  payload_proc->longitude = __bswap32(payload_proc->longitude);
  payload_proc->groundspeed = __bswap16(payload_proc->groundspeed);
  payload_proc->heading = __bswap16(payload_proc->heading);
  payload_proc->altitude = __bswap16(payload_proc->altitude);
  CRSF_send_payload(payload_proc, dest, CRSF_TYPE_GPS, sizeof(crsf_gps_t));\<close>
\<close>

definition CRSF_send_gps_data ::
  "u8 list \<Rightarrow> crsf_dest_t \<Rightarrow> crsf_gps_t \<Rightarrow> fault + (crsf_gps_t \<times> u8 list)" where
  "CRSF_send_gps_data table dest payload =
     (let p1 = payload\<lparr>latitude := bswap32 (latitude payload)\<rparr>;
          p2 = p1\<lparr>longitude := bswap32 (longitude p1)\<rparr>;
          p3 = p2\<lparr>groundspeed := bswap16 (groundspeed p2)\<rparr>;
          p4 = p3\<lparr>heading := bswap16 (heading p3)\<rparr>;
          p5 = p4\<lparr>altitude := bswap16 (altitude p4)\<rparr>
      in case CRSF_send_payload table (crsf_gps_bytes p5) dest CRSF_TYPE_GPS 15 of
           Inl f \<Rightarrow> Inl f
         | Inr written \<Rightarrow> Inr (p5, written))"

text \<open>
  \<^verbatim>\<open>for (size_t i = 0; i < num_values; i++) {
      rpm_packet->rpm_value[i] = int32_to_int24(bswap24(rpm_values[i])); }\<close>
  \<open>rpm_values\<close> is the caller's array; reading an entry it does not have is \<open>Overread\<close>.
\<close>

function rpm_convert_loop ::
  "u32 list \<Rightarrow> nat \<Rightarrow> nat \<Rightarrow> int24_t list \<Rightarrow> fault + int24_t list" where
  "rpm_convert_loop rpm_values num_values i vals =
     (if i < num_values
      then if i < length rpm_values
           then rpm_convert_loop rpm_values num_values (i + 1)
                  (vals[i := int32_to_int24 (bswap24 (rpm_values ! i))])
           else Inl Overread
      else Inr vals)"
  by pat_completeness auto
termination
  by (relation "measure (\<lambda>(rpm_values, num_values, i, vals). num_values - i)") auto

text \<open>
  \<^verbatim>\<open>if (num_values > 19) { num_values = 19; }
  size_t packet_size = sizeof(crsf_rpm_t) + (num_values * sizeof(int24_t));
  crsf_rpm_t *rpm_packet = malloc(packet_size);
  if (!rpm_packet) { ESP_LOGE(...); return; }\<close>
  \<open>malloc_ok\<close> says whether the allocation succeeds; when it fails nothing is written.
  The allocated packet has room for \<open>num_values\<close> entries, its bytes before the writes
  are taken as zero (every one is written before the packet is sent). \<open>packet_size\<close> is
  converted to the \<open>uint8_t\<close> parameter of \<open>CRSF_send_payload\<close>.
\<close>

definition CRSF_send_rpm_values ::
  "u8 list \<Rightarrow> bool \<Rightarrow> crsf_dest_t \<Rightarrow> u8 \<Rightarrow> u32 list \<Rightarrow> u32 \<Rightarrow> fault + u8 list" where
  "CRSF_send_rpm_values table malloc_ok dest source_id rpm_values num_values0 =
     (let num_values = (if num_values0 > 19 then 19 else num_values0);
          packet_size = 1 + num_values * 3
      in if \<not> malloc_ok then Inr []
         else
           let rpm_packet0 = \<lparr>rpm_source_id = source_id,
                              rpm_value = replicate (unat num_values)
                                            \<lparr>byte0 = 0, byte1 = 0, byte2 = 0\<rparr>\<rparr>
           in case rpm_convert_loop rpm_values (unat num_values) 0 (rpm_value rpm_packet0) of
                Inl f \<Rightarrow> Inl f
              | Inr vs \<Rightarrow>
                  CRSF_send_payload table (crsf_rpm_bytes (rpm_packet0\<lparr>rpm_value := vs\<rparr>))
                    dest CRSF_TYPE_RPM (ucast packet_size))"

text \<open>
  \<^verbatim>\<open>for (size_t i = 0; i < num_temps; i++) {
      payload->temp_value[i] = __bswap16(payload->temp_value[i]); }\<close>
  on the caller's struct; an entry the object does not have is \<open>Overread\<close>.
\<close>

function temp_swap_loop :: "nat \<Rightarrow> nat \<Rightarrow> u16 list \<Rightarrow> fault + u16 list" where
  "temp_swap_loop num_temps i vals =
     (if i < num_temps
      then if i < length vals
           then temp_swap_loop num_temps (i + 1) (vals[i := bswap16 (vals ! i)])
           else Inl Overread
      else Inr vals)"
  by pat_completeness auto
termination
  by (relation "measure (\<lambda>(num_temps, i, vals). num_temps - i)") auto

text \<open>
  \<^verbatim>\<open>size_t payload_size = sizeof(uint8_t) + (num_temps * sizeof(int16_t));
  ...
  CRSF_send_payload(payload, dest, CRSF_TYPE_TEMP, payload_size);\<close>
  \<open>payload_size\<close> is a 32-bit \<open>size_t\<close>, converted to the \<open>uint8_t\<close> parameter.
\<close>

definition CRSF_send_temp_data ::
  "u8 list \<Rightarrow> crsf_dest_t \<Rightarrow> crsf_temp_t \<Rightarrow> u32 \<Rightarrow> fault + (crsf_temp_t \<times> u8 list)" where
  "CRSF_send_temp_data table dest payload num_temps =
     (let payload_size = 1 + num_temps * 2
      in case temp_swap_loop (unat num_temps) 0 (temp_value payload) of
           Inl f \<Rightarrow> Inl f
         | Inr vs \<Rightarrow>
             let p = payload\<lparr>temp_value := vs\<rparr>
             in case CRSF_send_payload table (crsf_temp_bytes p) dest CRSF_TYPE_TEMP
                       (ucast payload_size) of
                  Inl f \<Rightarrow> Inl f
                | Inr written \<Rightarrow> Inr (p, written))"

section \<open>Shared state, failsafe timer and receive task\<close>

text \<open>
  Modelled from the spec: the timer service (the FreeRTOS software timers
  \<open>xTimerCreate\<close>, \<open>xTimerStart\<close>, \<open>xTimerReset\<close> and the timer task, an external
  collaborator that the source only calls). A one-shot timer has a period and, while it is
  armed, the time at which it expires; starting or resetting it at time \<open>now\<close> arms it to
  expire at \<open>now + period\<close>; when it expires its callback runs once and it is dormant
  again. Time is counted in milliseconds.
\<close>

record timer_t =
  timer_period :: nat
  timer_expiry :: "nat option"

definition xTimerCreate :: "nat \<Rightarrow> timer_t" where
  "xTimerCreate period = \<lparr>timer_period = period, timer_expiry = None\<rparr>"

definition xTimerStart :: "nat \<Rightarrow> timer_t \<Rightarrow> timer_t" where
  "xTimerStart now t = t\<lparr>timer_expiry := Some (now + timer_period t)\<rparr>"

definition xTimerReset :: "nat \<Rightarrow> timer_t \<Rightarrow> timer_t" where
  "xTimerReset now t = t\<lparr>timer_expiry := Some (now + timer_period t)\<rparr>"

text \<open>
  The file-scope variables of the source, and the clock of the scheduler.
  \<open>failsafe_timer\<close> is \<open>None\<close> for the \<open>NULL\<close> handle.
\<close>

record crsf_state =
  crc8_table :: "u8 list"
  received_channels :: crsf_channels_t
  received_link_statistics :: crsf_link_statistics_t
  failsafe_flag :: bool
  failsafe_timer :: "timer_t option"
  now_ms :: nat

text \<open>The static initialisers: \<^verbatim>\<open>failsafe_flag = true\<close>, \<^verbatim>\<open>failsafe_timer = NULL\<close>, zeroed data.\<close>

definition crsf_static_init :: "nat \<Rightarrow> crsf_state" where
  "crsf_static_init t0 =
     \<lparr>crc8_table = crc8_table_zero,
      received_channels = crsf_channels_zero,
      received_link_statistics = crsf_link_statistics_zero,
      failsafe_flag = True,
      failsafe_timer = None,
      now_ms = t0\<rparr>"

text \<open>
  \<open>CRSF_init\<close>, the part that touches the state above:
  \<^verbatim>\<open>generate_CRC(0xd5); ...
  failsafe_timer = xTimerCreate("FailsafeTimer", pdMS_TO_TICKS(500), pdFALSE, NULL,
                                failsafe_timer_callback);
  if (failsafe_timer != NULL) { xTimerStart(failsafe_timer, 0); }\<close>
  \<open>timer_created\<close> says whether \<open>xTimerCreate\<close> returns a handle. \<open>CRSF_init\<close> is
  one step: the receive task that it creates handles its first event after it has returned.
\<close>

definition CRSF_init :: "bool \<Rightarrow> crsf_state \<Rightarrow> crsf_state" where
  "CRSF_init timer_created s =
     (let s1 = s\<lparr>crc8_table := generate_CRC 0xd5 (crc8_table s)\<rparr>;
          s2 = s1\<lparr>failsafe_timer := (if timer_created then Some (xTimerCreate 500) else None)\<rparr>
      in case failsafe_timer s2 of
           None \<Rightarrow> s2
         | Some t \<Rightarrow> s2\<lparr>failsafe_timer := Some (xTimerStart (now_ms s2) t)\<rparr>)"

text \<open>\<^verbatim>\<open>static void failsafe_timer_callback(TimerHandle_t xTimer) { failsafe_flag = true; }\<close>\<close>

definition failsafe_timer_callback :: "crsf_state \<Rightarrow> crsf_state" where
  "failsafe_timer_callback s = s\<lparr>failsafe_flag := True\<rparr>"

text \<open>\<^verbatim>\<open>bool CRSF_is_failsafe() { return failsafe_flag; }\<close>\<close>

definition CRSF_is_failsafe :: "crsf_state \<Rightarrow> bool" where
  "CRSF_is_failsafe s = failsafe_flag s"

text \<open>
  The passing of \<open>d\<close> milliseconds: the clock advances, and the timer task runs the
  callback of the armed timer whose expiry time has been reached and leaves it dormant.
\<close>

definition elapse :: "nat \<Rightarrow> crsf_state \<Rightarrow> crsf_state" where
  "elapse d s =
     (let s1 = s\<lparr>now_ms := now_ms s + d\<rparr>
      in case failsafe_timer s1 of
           None \<Rightarrow> s1
         | Some t \<Rightarrow>
             (case timer_expiry t of
                None \<Rightarrow> s1
              | Some e \<Rightarrow>
                  if e \<le> now_ms s1
                  then failsafe_timer_callback
                         (s1\<lparr>failsafe_timer := Some (t\<lparr>timer_expiry := None\<rparr>)\<rparr>)
                  else s1))"

text \<open>
  An event taken from the UART queue: \<open>UART_DATA\<close> with the \<open>event.size\<close> bytes that
  \<open>uart_read_bytes\<close> then delivers, or any other event type.
\<close>

datatype uart_event_t = UART_DATA "u8 list" | UART_OTHER

definition RX_BUF_SIZE :: nat where
  "RX_BUF_SIZE = 1024"

text \<open>
  \<^verbatim>\<open>bzero(dtmp, RX_BUF_SIZE); ... uart_read_bytes(uart_num, dtmp, event.size, portMAX_DELAY);\<close>
  The buffer after the read: the bytes of the event, then zeros.
\<close>

definition dtmp_of :: "u8 list \<Rightarrow> u8 list" where
  "dtmp_of bytes = bytes @ replicate (RX_BUF_SIZE - length bytes) 0"

text \<open>
  \<^verbatim>\<open>uint8_t payload_length = length - 2; uint8_t payload[payload_length];
  for (int i = 0; i < payload_length; i++) { payload[i] = dtmp[i + 3]; }\<close>
  The largest index read is 254 + 3, inside the buffer.
\<close>

definition rx_payload :: "u8 list \<Rightarrow> u8 \<Rightarrow> u8 list" where
  "rx_payload dtmp payload_length = map (\<lambda>i. dtmp ! (i + 3)) [0..<unat payload_length]"

text \<open>
  One iteration of the loop of \<open>rx_task\<close>, for one event. A \<open>UART_DATA\<close> event of more
  than \<open>RX_BUF_SIZE\<close> bytes writes past \<open>dtmp\<close> (\<open>Overrun\<close>). The \<open>switch\<close> copies
  \<open>sizeof(crsf_channels_t)\<close> = 22 or \<open>sizeof(crsf_link_statistics_t)\<close> = 10 bytes out of
  the array \<open>payload\<close>; when the array is shorter this reads past it (\<open>Overread\<close>).
  The mutex only serialises the copies, which are single steps here.
\<close>

definition rx_task_event :: "uart_event_t \<Rightarrow> crsf_state \<Rightarrow> fault + crsf_state" where
  "rx_task_event event s =
     (case event of
        UART_OTHER \<Rightarrow> Inr s
      | UART_DATA bytes \<Rightarrow>
          if RX_BUF_SIZE < length bytes then Inl Overrun
          else
            let dtmp = dtmp_of bytes;
                type = dtmp ! 2;
                len = dtmp ! 1;
                dest = dtmp ! 0;
                payload_length = len - 2;
                payload = rx_payload dtmp payload_length
            in if type = crsf_type_value CRSF_TYPE_CHANNELS
               then if unat payload_length < 22 then Inl Overread
                    else Inr (s\<lparr>received_channels := crsf_channels_of_bytes payload,
                                failsafe_timer :=
                                  (case failsafe_timer s of
                                     None \<Rightarrow> None
                                   | Some t \<Rightarrow> Some (xTimerReset (now_ms s) t)),
                                failsafe_flag := False\<rparr>)
               else if type = crsf_type_value CRSF_TYPE_LINK_STATISTICS
               then if unat payload_length < 10 then Inl Overread
                    else Inr (s\<lparr>received_link_statistics :=
                                  crsf_link_statistics_of_bytes payload\<rparr>)
               else Inr s)"

text \<open>
  \<^verbatim>\<open>void CRSF_receive_channels(crsf_channels_t *channels)\<close> and
  \<^verbatim>\<open>crsf_link_statistics_t CRSF_get_link_statistics()\<close> copy the stored values out.
\<close>

definition CRSF_receive_channels :: "crsf_state \<Rightarrow> crsf_channels_t" where
  "CRSF_receive_channels s = received_channels s"

definition CRSF_get_link_statistics :: "crsf_state \<Rightarrow> crsf_link_statistics_t" where
  "CRSF_get_link_statistics s = received_link_statistics s"

text \<open>
  A run of the system: UART events handled by the receive task, interleaved with the
  passing of time. A fault ends the run.
\<close>

datatype sys_event = Rx uart_event_t | Elapse nat

fun sys_step :: "sys_event \<Rightarrow> crsf_state \<Rightarrow> fault + crsf_state" where
  "sys_step (Rx e) s = rx_task_event e s"
| "sys_step (Elapse d) s = Inr (elapse d s)"

fun run :: "sys_event list \<Rightarrow> crsf_state \<Rightarrow> fault + crsf_state" where
  "run [] s = Inr s"
| "run (e # es) s = (case sys_step e s of Inl f \<Rightarrow> Inl f | Inr s' \<Rightarrow> run es s')"

text \<open>Whether an event is a frame that the receive task takes for channel data.\<close>

fun is_channels_event :: "sys_event \<Rightarrow> bool" where
  "is_channels_event (Rx (UART_DATA bytes)) =
     (dtmp_of bytes ! 2 = crsf_type_value CRSF_TYPE_CHANNELS)"
| "is_channels_event _ = False"

text \<open>The time that passes during a run.\<close>

fun elapsed :: "sys_event list \<Rightarrow> nat" where
  "elapsed [] = 0"
| "elapsed (Elapse d # es) = d + elapsed es"
| "elapsed (Rx e # es) = elapsed es"


section \<open>The wire format the properties are stated against\<close>

text \<open>
  A big-endian field has its most significant byte first on the wire.
\<close>

definition be16 :: "u16 \<Rightarrow> u8 list" where
  "be16 w = [ucast (drop_bit 8 w), ucast w]"

definition be24 :: "24 word \<Rightarrow> u8 list" where
  "be24 w = [ucast (drop_bit 16 w), ucast (drop_bit 8 w), ucast w]"

definition be32 :: "u32 \<Rightarrow> u8 list" where
  "be32 w = [ucast (drop_bit 24 w), ucast (drop_bit 16 w), ucast (drop_bit 8 w), ucast w]"

text \<open>
  Modelled from the spec: the unpack of an RPM value, which the source does not contain
  (it only sends RPM frames). "Unpack performs the inverse with sign extension from bit
  23": the triplet is read most significant byte first into an \<open>int24_t\<close>, whose
  \<open>byte2\<close> is the most significant byte, and sign-extended by the source's own
  \<open>int24_to_int32\<close>.
\<close>

fun rpm_unpack :: "u8 list \<Rightarrow> u32" where
  "rpm_unpack [b0, b1, b2] = int24_to_int32 \<lparr>byte0 = b2, byte1 = b1, byte2 = b0\<rparr>"
| "rpm_unpack _ = 0"

text \<open>
  The outer frame of the wire format, \<open>[destination][length][type][payload][checksum]\<close>
  with length = payload length + 2, for any checksum byte; the frame is well-formed when
  the checksum byte is the CRC-8 of polynomial 0xD5 over the type byte and the payload.
\<close>

definition wire_frame :: "u8 \<Rightarrow> u8 \<Rightarrow> u8 list \<Rightarrow> u8 \<Rightarrow> u8 list" where
  "wire_frame dest type payload checksum =
     [dest, of_nat (length payload + 2), type] @ payload @ [checksum]"

definition frame_checksum :: "u8 \<Rightarrow> u8 list \<Rightarrow> u8" where
  "frame_checksum type payload = crc8_ref 0xD5 (type # payload)"

section \<open>Invariants of the failsafe monitor\<close>

text \<open>The failsafe timer exists and has the period that \<open>CRSF_init\<close> gives it.\<close>

definition timer_ready :: "crsf_state \<Rightarrow> bool" where
  "timer_ready s = (case failsafe_timer s of None \<Rightarrow> False | Some t \<Rightarrow> timer_period t = 500)"

text \<open>
  The state between a channels frame and the next one, \<open>deadline\<close> being 500 ms after
  the frame: before the deadline the flag is clear and the timer is armed for the
  deadline; from the deadline on the flag is set.
\<close>

definition failsafe_window :: "nat \<Rightarrow> crsf_state \<Rightarrow> bool" where
  "failsafe_window deadline s =
     (case failsafe_timer s of
        None \<Rightarrow> False
      | Some t \<Rightarrow>
          timer_period t = 500 \<and>
          (if now_ms s < deadline
           then \<not> failsafe_flag s \<and> timer_expiry t = Some deadline
           else failsafe_flag s))"

section \<open>Properties of the checksum engine\<close>

lemma and_ff: "(x :: u8) AND 0xff = x"
proof -
  have "(0xff :: u8) = - 1" by simp
  then show ?thesis by (simp only: and.right_neutral)
qed

lemma crc_round_narrow_poly:
  "(ucast (push_bit 1 (ucast (crc :: u8) :: u32) XOR (ucast (p :: u8) :: u32)) :: u8)
   = push_bit 1 crc XOR p"
  apply (rule bit_word_eqI)
  apply (simp only: bit_simps)
  apply auto
  done

lemma crc_round_narrow_zero:
  "(ucast (push_bit 1 (ucast (crc :: u8) :: u32) XOR 0) :: u8) = push_bit 1 crc XOR 0"
  apply (rule bit_word_eqI)
  apply (simp only: bit_simps)
  apply auto
  done

text \<open>The round computed in \<open>int\<close> and truncated is the round on eight bits.\<close>

lemma crc_round_eq: "crc_round poly crc = push_bit 1 crc XOR (if bit crc 7 then poly else 0)"
proof -
  have e: "(0x80 :: u32) = 2 ^ 7" by simp
  have t: "((ucast crc :: u32) AND 0x80 \<noteq> 0) = bit crc 7"
    unfolding e and_exp_eq_0_iff_not_bit by (simp add: bit_simps)
  show ?thesis unfolding crc_round_def t
    by (cases "bit crc 7")
       (simp_all only: crc_round_narrow_poly crc_round_narrow_zero if_True if_False)
qed

lemma crc_shift_loop_eq:
  "shift \<le> 8 \<Longrightarrow> crc_shift_loop poly shift crc = (crc_round poly ^^ (8 - shift)) crc"
proof (induction poly shift crc rule: crc_shift_loop.induct)
  case (1 poly shift crc)
  show ?case
  proof (cases "shift < 8")
    case True
    then have "8 - shift = Suc (8 - (shift + 1))" by simp
    with 1 True show ?thesis
      by (simp add: funpow_swap1 del: crc_shift_loop.simps
            add: crc_shift_loop.simps[of poly shift crc])
  next
    case False
    with 1 show ?thesis by simp
  qed
qed

lemma generate_CRC_loop_eq:
  "idx \<le> 256 \<Longrightarrow> length table = 256 \<Longrightarrow>
   generate_CRC_loop poly idx table =
     take idx table @ map (\<lambda>i. (crc_round poly ^^ 8) (of_nat i)) [idx..<256]"
proof (induction poly idx table rule: generate_CRC_loop.induct)
  case (1 poly idx table)
  show ?case
  proof (cases "idx < 256")
    case True
    let ?v = "crc_shift_loop poly 0 (of_nat idx) AND 0xff"
    have v: "?v = (crc_round poly ^^ 8) (of_nat idx)"
      by (simp only: and_ff) (simp add: crc_shift_loop_eq del: crc_shift_loop.simps)
    have "generate_CRC_loop poly idx table = generate_CRC_loop poly (idx + 1) (table[idx := ?v])"
      using True by (subst generate_CRC_loop.simps) simp
    also have "\<dots> = take (idx + 1) (table[idx := ?v])
                     @ map (\<lambda>i. (crc_round poly ^^ 8) (of_nat i)) [idx + 1..<256]"
      using 1 True by simp
    also have "take (idx + 1) (table[idx := ?v]) = take idx table @ [?v]"
      using True 1(3) by (simp add: take_Suc_conv_app_nth)
    finally show ?thesis
      using True unfolding v by (simp add: upt_conv_Cons del: crc_shift_loop.simps)
  next
    case False
    with 1 show ?thesis by simp
  qed
qed

lemma generate_CRC_eq:
  "length table = 256 \<Longrightarrow>
   generate_CRC poly table = map (\<lambda>i. (crc_round poly ^^ 8) (of_nat i)) [0..<256]"
  unfolding generate_CRC_def by (subst generate_CRC_loop_eq) simp_all

lemma generate_CRC_nth:
  assumes "length table = 256"
  shows "generate_CRC poly table ! unat (x :: u8) = (crc_round poly ^^ 8) x"
proof -
  have "unat x < 256" using unsigned_less[of x] by simp
  then show ?thesis by (simp add: generate_CRC_eq[OF assms] del: funpow.simps)
qed

lemma crc8_loop_foldl:
  "n \<le> length data \<Longrightarrow>
   crc8_loop table data n crc = Inr (foldl (\<lambda>c b. table ! unat (c XOR b)) crc (take n data))"
proof (induction data arbitrary: n crc)
  case Nil
  then show ?case by simp
next
  case (Cons b data)
  then show ?case by (cases n) simp_all
qed

lemma crc_round_fun: "crc_round poly = (\<lambda>c. push_bit 1 c XOR (if bit c 7 then poly else 0))"
  by (rule ext) (rule crc_round_eq)

lemma crc8_ref_byte_eq: "crc8_ref_byte poly crc b = (crc_round poly ^^ 8) (crc XOR b)"
  unfolding crc8_ref_byte_def crc_round_fun by simp

lemma crc8_loop_table_ref:
  assumes "length table = 256" "n \<le> length data"
  shows "crc8_loop (generate_CRC poly table) data n 0 = Inr (crc8_ref poly (take n data))"
proof -
  have "(\<lambda>c b. generate_CRC poly table ! unat (c XOR b)) = crc8_ref_byte poly"
    by (intro ext) (simp only: generate_CRC_nth[OF assms(1)] crc8_ref_byte_eq)
  then show ?thesis
    unfolding crc8_ref_def by (simp add: crc8_loop_foldl[OF assms(2)])
qed

lemma unat_of_nat_u8: "n < 256 \<Longrightarrow> unat (of_nat n :: u8) = n"
  by (simp add: unat_of_nat)

lemma crc8_table_zero_length: "length crc8_table_zero = 256"
  by (simp add: crc8_table_zero_def)


lemma funpow8: "(f ^^ 8) x = f (f (f (f (f (f (f (f x)))))))"
  by (simp add: eval_nat_numeral)

text \<open>The rules that evaluate the reference checksum of a given byte sequence.\<close>

lemmas crc8_eval = crc8_ref_def crc8_ref_byte_eq funpow8 crc_round_eq

text \<open>
  Claim C3. \<open>generate_CRC\<close> fills each of the 256 entries with the result of exactly
  eight rounds of "shift left by one, XOR the polynomial if the top bit was set before the
  shift" applied to the entry's index; \<open>crc8\<close> folds every input byte through
  \<open>table[crc XOR byte]\<close> starting from 0; with the table of polynomial 0xD5 it equals the
  bitwise reference CRC-8 on every input, gives 0 on the empty sequence, 0xD5 on the
  single byte 1 and 0xBC (the published check value of CRC-8/DVB-S2) on the ASCII
  digits "123456789".
\<close>

theorem crc8_engine:
  assumes "length table = 256" and "length data < 256"
  shows "generate_CRC poly table =
           map (\<lambda>idx. ((\<lambda>crc. push_bit 1 crc XOR (if bit crc 7 then poly else 0)) ^^ 8)
                        (of_nat idx)) [0..<256]
         \<and> crc8 tbl data (of_nat (length data))
             = Inr (foldl (\<lambda>crc b. tbl ! unat (crc XOR b)) 0 data)
         \<and> crc8 (generate_CRC 0xD5 table) data (of_nat (length data))
             = Inr (crc8_ref 0xD5 data)
         \<and> crc8 (generate_CRC 0xD5 table) [] 0 = Inr 0
         \<and> crc8 (generate_CRC 0xD5 table) [1] 1 = Inr 0xD5
         \<and> crc8 (generate_CRC 0xD5 table)
              [0x31, 0x32, 0x33, 0x34, 0x35, 0x36, 0x37, 0x38, 0x39] 9 = Inr 0xBC"
proof (intro conjI)
  show "generate_CRC poly table =
           map (\<lambda>idx. ((\<lambda>crc. push_bit 1 crc XOR (if bit crc 7 then poly else 0)) ^^ 8)
                        (of_nat idx)) [0..<256]"
    using generate_CRC_eq[OF assms(1), of poly] unfolding crc_round_fun .
  have un: "unat (of_nat (length data) :: u8) = length data"
    using assms(2) by (rule unat_of_nat_u8)
  show "crc8 tbl data (of_nat (length data))
             = Inr (foldl (\<lambda>crc b. tbl ! unat (crc XOR b)) 0 data)"
    unfolding crc8_def un by (subst crc8_loop_foldl) simp_all
  show "crc8 (generate_CRC 0xD5 table) data (of_nat (length data)) = Inr (crc8_ref 0xD5 data)"
    unfolding crc8_def un by (subst crc8_loop_table_ref[OF assms(1)]) simp_all
  show "crc8 (generate_CRC 0xD5 table) [] 0 = Inr 0"
    by (simp add: crc8_def)
  have "crc8 (generate_CRC 0xD5 table) [1] 1 = Inr (crc8_ref 0xD5 (take 1 [1]))"
    unfolding crc8_def by (subst crc8_loop_table_ref[OF assms(1)]) simp_all
  then show "crc8 (generate_CRC 0xD5 table) [1] 1 = Inr 0xD5"
    by (simp add: crc8_eval)
  have "crc8 (generate_CRC 0xD5 table) [0x31, 0x32, 0x33, 0x34, 0x35, 0x36, 0x37, 0x38, 0x39] 9
        = Inr (crc8_ref 0xD5 (take 9 [0x31, 0x32, 0x33, 0x34, 0x35, 0x36, 0x37, 0x38, 0x39]))"
    unfolding crc8_def by (subst crc8_loop_table_ref[OF assms(1)]) simp_all
  then show "crc8 (generate_CRC 0xD5 table)
              [0x31, 0x32, 0x33, 0x34, 0x35, 0x36, 0x37, 0x38, 0x39] 9 = Inr 0xBC"
    by (simp add: crc8_eval)
qed

theorem crc8_engine_witness:
  "length crc8_table_zero = 256 \<and> length [0x16, 0x2A :: u8] < 256
   \<and> generate_CRC 0xD5 crc8_table_zero ! 1 = 0xD5
   \<and> crc8 (generate_CRC 0xD5 crc8_table_zero) [0x16, 0x2A] 2 = Inr 0x78"
  using crc8_engine[OF crc8_table_zero_length, of "[0x16, 0x2A]" "0xD5"]
  by (simp add: crc8_table_zero_length crc8_eval)

section \<open>Properties of the frame encoder\<close>

lemma drop_cons_replicate: "drop k (x # replicate k x) = [x]"
  by (induction k) simp_all

lemma send_payload_frame:
  assumes t: "length table = 256" and n: "length payload \<le> 253"
  shows "CRSF_send_payload (generate_CRC 0xD5 table) payload destination type
           (of_nat (length payload))
         = Inr ([crsf_dest_value destination, of_nat (length payload + 2), crsf_type_value type]
                @ payload @ [crc8_ref 0xD5 (crsf_type_value type # payload)])"
proof -
  let ?n = "length payload"
  let ?pl = "of_nat ?n :: u8"
  let ?hdr = "[crsf_dest_value destination, ?pl + 2, crsf_type_value type]"
  have un: "unat ?pl = ?n" using n by (simp add: unat_of_nat_u8)
  have un1: "unat (?pl + 1) = ?n + 1"
  proof -
    have "?pl + 1 = of_nat (?n + 1)" by simp
    then show ?thesis using n by (simp only: unat_of_nat_u8)
  qed
  have rep: "replicate (?n + 4) (0::u8) = [0,0,0] @ replicate (?n + 1) 0"
    by (simp add: numeral_eq_Suc)
  have p3: "(replicate (?n + 4) (0 :: u8))
              [0 := crsf_dest_value destination, 1 := ?pl + 2, 2 := crsf_type_value type]
            = ?hdr @ replicate (?n + 1) 0"
    unfolding rep by simp
  have p4: "take 3 (?hdr @ replicate (?n + 1) 0) @ take ?n payload
              @ drop (3 + ?n) (?hdr @ replicate (?n + 1) 0)
            = ?hdr @ payload @ [0]"
    by (simp add: numeral_3_eq_3 drop_cons_replicate)
  have d2: "drop 2 (?hdr @ payload @ [0]) = crsf_type_value type # payload @ [0]" by simp
  have c: "crc8 (generate_CRC 0xD5 table) (crsf_type_value type # payload @ [0]) (?pl + 1)
           = Inr (crc8_ref 0xD5 (crsf_type_value type # payload))"
    unfolding crc8_def un1 by (subst crc8_loop_table_ref[OF t]) simp_all
  have upd: "(?hdr @ payload @ [0])[?n + 3 := x] = ?hdr @ payload @ [x]" for x
    by (simp add: list_update_append numeral_eq_Suc)
  have l2: "(of_nat (?n + 2) :: u8) = ?pl + 2" by simp
  show ?thesis
    unfolding CRSF_send_payload_def Let_def un p3 p4 d2 c l2
    by (simp only: upd less_irrefl if_False sum.case)
qed

lemma CRSF_init_table:
  "crc8_table (CRSF_init timer_created s) = generate_CRC 0xD5 (crc8_table s)"
  by (simp add: CRSF_init_def Let_def)

lemma crsf_static_init_table: "crc8_table (crsf_static_init t0) = crc8_table_zero"
  by (simp add: crsf_static_init_def)

text \<open>
  Claim C4. After \<open>CRSF_init\<close>, for every destination, type and payload of at most 253
  bytes (so in particular every payload that fits the 64-byte maximum frame),
  \<open>CRSF_send_payload\<close> called with the payload's length writes exactly the bytes
  destination, length + 2, type, the payload, and the CRC-8 of polynomial 0xD5 over the
  type byte followed by the payload.
\<close>

theorem CRSF_send_payload_wire:
  assumes "length payload \<le> 253"
  shows "CRSF_send_payload (crc8_table (CRSF_init timer_created (crsf_static_init t0)))
           payload destination type (of_nat (length payload))
         = Inr ([crsf_dest_value destination, of_nat (length payload + 2), crsf_type_value type]
                @ payload @ [crc8_ref 0xD5 (crsf_type_value type # payload)])"
  unfolding CRSF_init_table crsf_static_init_table
  by (rule send_payload_frame[OF crc8_table_zero_length assms])

theorem CRSF_send_payload_wire_witness:
  "length [1, 2, 3 :: u8] \<le> 253
   \<and> CRSF_send_payload (crc8_table (CRSF_init True (crsf_static_init 0)))
        [1, 2, 3] CRSF_DEST_FC CRSF_TYPE_BATTERY 3
      = Inr [0xC8, 5, 0x08, 1, 2, 3, 0x68]"
  using CRSF_send_payload_wire[of "[1, 2, 3]" True 0 CRSF_DEST_FC CRSF_TYPE_BATTERY]
  by (simp add: crc8_eval)


section \<open>Byte order and sign extension\<close>

lemma le16_bswap16: "le16 (bswap16 x) = be16 x"
  unfolding le16_def be16_def bswap16_def
  by (simp; intro conjI; rule bit_word_eqI; auto simp: bit_simps)

lemma m8: "(0xFF :: u32) = mask 8" by (simp add: mask_eq_exp_minus_1)
lemma m16: "(0xFF00 :: u32) = push_bit 8 (mask 8)" by (simp add: mask_eq_exp_minus_1)
lemma m24: "(0xFF0000 :: u32) = push_bit 16 (mask 8)" by (simp add: mask_eq_exp_minus_1)

lemma le32_bswap32: "le32 (bswap32 x) = be32 x"
  unfolding le32_def be32_def bswap32_def m16
  by (simp; intro conjI; rule bit_word_eqI; auto simp: bit_simps)

lemma rpm_triplet_be: "int24_bytes (int32_to_int24 (bswap24 v)) = be24 (ucast v)"
  unfolding int24_bytes_def int32_to_int24_def bswap24_def be24_def m8 m16 m24
  by (simp; intro conjI; rule bit_word_eqI; auto simp: bit_simps)

lemma battery_capacity_bytes:
  "le24 (ucast (push_bit 8 (ucast (bswap16 (ucast (c :: 24 word) :: u16)) :: u32)))
   = [0, ucast (drop_bit 8 c), ucast c]"
  unfolding le24_def bswap16_def
  by (simp; intro conjI; rule bit_word_eqI; auto simp: bit_simps)

lemma m23: "(0x800000 :: u32) = 2 ^ 23" by simp
lemma mhi: "(0xFF000000 :: u32) = push_bit 24 (mask 8)" by (simp add: mask_eq_exp_minus_1)

lemma int24_to_int32_bits:
  "bit (int24_to_int32 t) n \<longleftrightarrow>
     (n < 8 \<and> bit (byte0 t) n) \<or> (8 \<le> n \<and> n < 16 \<and> bit (byte1 t) (n - 8))
     \<or> (16 \<le> n \<and> n < 24 \<and> bit (byte2 t) (n - 16))
     \<or> (24 \<le> n \<and> n < 32 \<and> bit (byte2 t) 7)"
proof -
  let ?r = "push_bit 16 (ucast (byte2 t)) OR push_bit 8 (ucast (byte1 t)) OR ucast (byte0 t) :: u32"
  have t: "(?r AND 0x800000 \<noteq> 0) = bit (byte2 t) 7"
    unfolding m23 and_exp_eq_0_iff_not_bit by (auto simp add: bit_simps dest: bit_imp_le_length)
  show ?thesis
    unfolding int24_to_int32_def Let_def t mhi
    by (cases "bit (byte2 t) 7") (auto simp add: bit_simps dest: bit_imp_le_length)
qed

lemma sint_range_bits:
  fixes v :: u32
  assumes "- 8388608 \<le> sint v" "sint v \<le> 8388607" "23 \<le> n" "n < 32"
  shows "bit v n = bit v 23"
proof -
  have "signed_take_bit 23 (sint v) = sint v"
    using assms(1,2) by (simp add: signed_take_bit_int_eq_self_iff)
  then have "bit (sint v) n = bit (signed_take_bit 23 (sint v)) n" by simp
  also have "\<dots> = bit (sint v) 23"
    using assms(3) by (simp add: bit_signed_take_bit_iff min_def)
  finally show ?thesis using assms(4) by (simp add: bit_sint_iff)
qed

lemma be24_unpack_bits:
  fixes v :: u32
  assumes n: "n < 32"
  shows "bit (rpm_unpack (be24 (ucast v))) n = (if n < 24 then bit v n else bit v 23)"
proof -
  consider "n < 8" | "8 \<le> n" "n < 16" | "16 \<le> n" "n < 24" | "24 \<le> n" "n < 32"
    using n by linarith
  then show ?thesis
  proof cases
    case 1
    then show ?thesis
      unfolding be24_def rpm_unpack.simps int24_to_int32_bits by (auto simp add: bit_simps)
  next
    case 2
    then show ?thesis
      unfolding be24_def rpm_unpack.simps int24_to_int32_bits by (auto simp add: bit_simps)
  next
    case 3
    then show ?thesis
      unfolding be24_def rpm_unpack.simps int24_to_int32_bits by (auto simp add: bit_simps)
  next
    case 4
    then show ?thesis
      unfolding be24_def rpm_unpack.simps int24_to_int32_bits by (auto simp add: bit_simps)
  qed
qed

lemma rpm_roundtrip:
  assumes "- 8388608 \<le> sint v" "sint v \<le> 8388607"
  shows "rpm_unpack (int24_bytes (int32_to_int24 (bswap24 v))) = v"
proof (rule bit_word_eqI)
  fix n assume n: "n < LENGTH(32)"
  then have n32: "n < 32" by simp
  show "bit (rpm_unpack (int24_bytes (int32_to_int24 (bswap24 v)))) n = bit v n"
  proof (cases "n < 24")
    case True
    then show ?thesis unfolding rpm_triplet_be be24_unpack_bits[OF n32] by simp
  next
    case False
    then have "bit v n = bit v 23" using sint_range_bits[OF assms _ n32] by simp
    with False show ?thesis unfolding rpm_triplet_be be24_unpack_bits[OF n32] by simp
  qed
qed

lemma int24_struct_unpack:
  "int24_to_int32 (int32_to_int24 v) = rpm_unpack (be24 (ucast v))"
proof (rule bit_word_eqI)
  fix n assume "n < LENGTH(32)"
  then have n: "n < 32" by simp
  consider "n < 8" | "8 \<le> n" "n < 16" | "16 \<le> n" "n < 24" | "24 \<le> n" "n < 32"
    using n by linarith
  then show "bit (int24_to_int32 (int32_to_int24 v)) n = bit (rpm_unpack (be24 (ucast v))) n"
  proof cases
    case 1
    then show ?thesis
      unfolding be24_unpack_bits[OF n] int24_to_int32_bits int32_to_int24_def m8
      by (auto simp add: bit_simps)
  next
    case 2
    then show ?thesis
      unfolding be24_unpack_bits[OF n] int24_to_int32_bits int32_to_int24_def m8
      by (auto simp add: bit_simps)
  next
    case 3
    then show ?thesis
      unfolding be24_unpack_bits[OF n] int24_to_int32_bits int32_to_int24_def m8
      by (auto simp add: bit_simps)
  next
    case 4
    then show ?thesis
      unfolding be24_unpack_bits[OF n] int24_to_int32_bits int32_to_int24_def m8
      by (auto simp add: bit_simps)
  qed
qed

section \<open>Properties of the telemetry senders\<close>

lemma send_payload_sized:
  assumes "length table = 256" "length payload = n" "n \<le> 253" "pl = of_nat n"
  shows "CRSF_send_payload (generate_CRC 0xD5 table) payload destination type pl
         = Inr ([crsf_dest_value destination, of_nat (n + 2), crsf_type_value type]
                @ payload @ [crc8_ref 0xD5 (crsf_type_value type # payload)])"
  using send_payload_frame[OF assms(1), of payload destination type] assms(2-4) by simp

lemma battery_wire:
  assumes "length table = 256"
  shows "CRSF_send_battery_data (generate_CRC 0xD5 table) dest p =
     Inr (p\<lparr>voltage := bswap16 (voltage p), current := bswap16 (current p),
            capacity := ucast (push_bit 8 (ucast (bswap16 (ucast (capacity p) :: u16)) :: u32))\<rparr>,
          [crsf_dest_value dest, 10, 0x08] @ be16 (voltage p) @ be16 (current p)
          @ [0, ucast (drop_bit 8 (capacity p)), ucast (capacity p), remaining p]
          @ [crc8_ref 0xD5 (0x08 # be16 (voltage p) @ be16 (current p)
                 @ [0, ucast (drop_bit 8 (capacity p)), ucast (capacity p), remaining p])])"
proof -
  let ?bytes = "be16 (voltage p) @ be16 (current p)
          @ [0, ucast (drop_bit 8 (capacity p)), ucast (capacity p), remaining p]"
  have l: "length ?bytes = 8" by (simp add: be16_def)
  have sp: "CRSF_send_payload (generate_CRC 0xD5 table) ?bytes dest CRSF_TYPE_BATTERY 8
            = Inr ([crsf_dest_value dest, 10, 0x08] @ ?bytes @ [crc8_ref 0xD5 (0x08 # ?bytes)])"
    by (rule trans[OF send_payload_sized[OF assms l]]) simp_all
  show ?thesis
    unfolding CRSF_send_battery_data_def Let_def
    by (simp add: crsf_battery_bytes_def le16_bswap16 battery_capacity_bytes sp)
qed

lemma gps_wire:
  assumes "length table = 256"
  shows "CRSF_send_gps_data (generate_CRC 0xD5 table) dest p =
     Inr (p\<lparr>latitude := bswap32 (latitude p), longitude := bswap32 (longitude p),
            groundspeed := bswap16 (groundspeed p), heading := bswap16 (heading p),
            altitude := bswap16 (altitude p)\<rparr>,
          [crsf_dest_value dest, 17, 0x02] @ be32 (latitude p) @ be32 (longitude p)
          @ be16 (groundspeed p) @ be16 (heading p) @ be16 (altitude p) @ [satellites p]
          @ [crc8_ref 0xD5 (0x02 # be32 (latitude p) @ be32 (longitude p)
          @ be16 (groundspeed p) @ be16 (heading p) @ be16 (altitude p) @ [satellites p])])"
proof -
  let ?bytes = "be32 (latitude p) @ be32 (longitude p)
          @ be16 (groundspeed p) @ be16 (heading p) @ be16 (altitude p) @ [satellites p]"
  have l: "length ?bytes = 15" by (simp add: be16_def be32_def)
  have sp: "CRSF_send_payload (generate_CRC 0xD5 table) ?bytes dest CRSF_TYPE_GPS 15
            = Inr ([crsf_dest_value dest, 17, 0x02] @ ?bytes @ [crc8_ref 0xD5 (0x02 # ?bytes)])"
    by (rule trans[OF send_payload_sized[OF assms l]]) simp_all
  show ?thesis
    unfolding CRSF_send_gps_data_def Let_def
    by (simp add: crsf_gps_bytes_def le16_bswap16 le32_bswap32 sp)
qed

lemma temp_swap_loop_eq:
  "i \<le> n \<Longrightarrow> n \<le> length vals \<Longrightarrow>
   temp_swap_loop n i vals = Inr (take i vals @ map bswap16 (take (n - i) (drop i vals)) @ drop n vals)"
proof (induction n i vals rule: temp_swap_loop.induct)
  case (1 n i vals)
  show ?case
  proof (cases "i < n")
    case True
    then have il: "i < length vals" using 1(3) by simp
    let ?vals' = "vals[i := bswap16 (vals ! i)]"
    have "temp_swap_loop n i vals = temp_swap_loop n (i + 1) ?vals'"
      using True il by (subst temp_swap_loop.simps) simp
    also have "\<dots> = Inr (take (i + 1) ?vals' @ map bswap16 (take (n - (i + 1)) (drop (i + 1) ?vals')) @ drop n ?vals')"
      using 1(1)[OF True il] True 1(3) by simp
    also have "take (i + 1) ?vals' = take i vals @ [bswap16 (vals ! i)]"
      using il by (simp add: take_Suc_conv_app_nth)
    also have "drop (i + 1) ?vals' = drop (i + 1) vals" by simp
    also have "drop n ?vals' = drop n vals" using True by simp
    also have "(take i vals @ [bswap16 (vals ! i)]) @ map bswap16 (take (n - (i + 1)) (drop (i + 1) vals)) @ drop n vals
       = take i vals @ map bswap16 (take (n - i) (drop i vals)) @ drop n vals"
    proof -
      have "drop i vals = vals ! i # drop (i + 1) vals" using il by (simp add: Cons_nth_drop_Suc)
      moreover have "n - i = Suc (n - (i + 1))" using True by simp
      ultimately show ?thesis by simp
    qed
    finally show ?thesis .
  next
    case False
    then have "i = n" using 1(2) by simp
    then show ?thesis by (subst temp_swap_loop.simps) simp
  qed
qed


lemma rpm_convert_loop_eq:
  "i \<le> n \<Longrightarrow> n \<le> length rvs \<Longrightarrow> length vals = n \<Longrightarrow>
   rpm_convert_loop rvs n i vals
     = Inr (take i vals @ map (\<lambda>v. int32_to_int24 (bswap24 v)) (take (n - i) (drop i rvs)))"
proof (induction rvs n i vals rule: rpm_convert_loop.induct)
  case (1 rvs n i vals)
  show ?case
  proof (cases "i < n")
    case True
    then have il: "i < length rvs" using 1(3) by simp
    let ?f = "\<lambda>v. int32_to_int24 (bswap24 v)"
    let ?vals' = "vals[i := ?f (rvs ! i)]"
    have "rpm_convert_loop rvs n i vals = rpm_convert_loop rvs n (i + 1) ?vals'"
      using True il by (subst rpm_convert_loop.simps) simp
    also have "\<dots> = Inr (take (i + 1) ?vals' @ map ?f (take (n - (i + 1)) (drop (i + 1) rvs)))"
      using 1(1)[OF True il] True 1(3,4) by simp
    also have "take (i + 1) ?vals' = take i vals @ [?f (rvs ! i)]"
      using True 1(4) by (simp add: take_Suc_conv_app_nth)
    also have "(take i vals @ [?f (rvs ! i)]) @ map ?f (take (n - (i + 1)) (drop (i + 1) rvs))
       = take i vals @ map ?f (take (n - i) (drop i rvs))"
    proof -
      have "drop i rvs = rvs ! i # drop (i + 1) rvs" using il by (simp add: Cons_nth_drop_Suc)
      moreover have "n - i = Suc (n - (i + 1))" using True by simp
      ultimately show ?thesis by simp
    qed
    finally show ?thesis .
  next
    case False
    then have "i = n" using 1(2) by simp
    then show ?thesis using 1(4) by (subst rpm_convert_loop.simps) simp
  qed
qed

lemma length_concat_be24: "length (concat (map (\<lambda>v. be24 (f v)) xs)) = 3 * length xs"
  by (induction xs) (simp_all add: be24_def)

lemma length_concat_be16: "length (concat (map be16 xs)) = 2 * length xs"
  by (induction xs) (simp_all add: be16_def)

lemma concat_le16_bswap16: "concat (map le16 (map bswap16 xs)) = concat (map be16 xs)"
  by (induction xs) (simp_all add: le16_bswap16)

lemma ucast_of_nat_u32_u8: "(ucast (of_nat k :: u32) :: u8) = of_nat k"
  by (rule bit_word_eqI) (auto simp add: bit_simps)

lemma rpm_wire:
  assumes t: "length table = 256" and n: "unat num_values \<le> length rpm_values"
  shows "CRSF_send_rpm_values (generate_CRC 0xD5 table) True dest source_id rpm_values num_values
     = Inr ([crsf_dest_value dest, of_nat (1 + 3 * min 19 (unat num_values) + 2), 0x0C, source_id]
            @ concat (map (\<lambda>v. be24 (ucast v)) (take (min 19 (unat num_values)) rpm_values))
            @ [crc8_ref 0xD5 (0x0C # source_id
                 # concat (map (\<lambda>v. be24 (ucast v)) (take (min 19 (unat num_values)) rpm_values)))])"
proof -
  let ?m = "min 19 (unat num_values)"
  let ?nv = "if num_values > 19 then 19 else num_values"
  have m: "unat ?nv = ?m"
    by (auto simp add: word_less_nat_alt min_def)
  have nv: "?nv = of_nat ?m" unfolding m[symmetric] by simp
  have ml: "?m \<le> length rpm_values" using n by simp
  let ?body = "concat (map (\<lambda>v. be24 (ucast v)) (take ?m rpm_values))"
  have loop: "rpm_convert_loop rpm_values ?m 0 (replicate ?m \<lparr>byte0 = 0, byte1 = 0, byte2 = 0\<rparr>)
        = Inr (map (\<lambda>v. int32_to_int24 (bswap24 v)) (take ?m rpm_values))"
    by (subst rpm_convert_loop_eq) (use ml in simp_all)
  have bytes: "concat (map int24_bytes (map (\<lambda>v. int32_to_int24 (bswap24 v)) xs))
        = concat (map (\<lambda>v. be24 (ucast v)) xs)" for xs
    by (induction xs) (simp_all add: rpm_triplet_be)
  have len: "length (source_id # ?body) = 1 + 3 * ?m"
    using ml by (simp add: length_concat_be24)
  have ps: "(ucast (1 + ?nv * 3 :: u32) :: u8) = of_nat (1 + 3 * ?m)"
  proof -
    have "(1 + ?nv * 3 :: u32) = of_nat (1 + 3 * ?m)" unfolding nv by simp
    then show ?thesis by (simp only: ucast_of_nat_u32_u8)
  qed
  have sp: "CRSF_send_payload (generate_CRC 0xD5 table) (source_id # ?body) dest CRSF_TYPE_RPM
              (of_nat (1 + 3 * ?m))
            = Inr ([crsf_dest_value dest, of_nat (1 + 3 * ?m + 2), 0x0C] @ (source_id # ?body)
                   @ [crc8_ref 0xD5 (0x0C # source_id # ?body)])"
    by (rule trans[OF send_payload_sized[OF t len]]) simp_all
  show ?thesis
    unfolding CRSF_send_rpm_values_def Let_def m ps
    by (simp only: loop sum.case crsf_rpm_bytes_def bytes sp not_True_eq_False if_False
          crsf_rpm_t.simps append_Cons append_Nil)
qed

lemma temp_wire:
  assumes t: "length table = 256" and n: "length (temp_value p) = n" "n \<le> 126"
  shows "CRSF_send_temp_data (generate_CRC 0xD5 table) dest p (of_nat n)
     = Inr (p\<lparr>temp_value := map bswap16 (temp_value p)\<rparr>,
            [crsf_dest_value dest, of_nat (1 + 2 * n + 2), 0x0D, temp_source_id p]
            @ concat (map be16 (temp_value p))
            @ [crc8_ref 0xD5 (0x0D # temp_source_id p # concat (map be16 (temp_value p)))])"
proof -
  have un: "unat (of_nat n :: u32) = n" using n(2) by (simp add: unat_of_nat)
  have loop: "temp_swap_loop n 0 (temp_value p) = Inr (map bswap16 (temp_value p))"
    by (subst temp_swap_loop_eq) (use n in simp_all)
  let ?body = "concat (map be16 (temp_value p))"
  have len: "length (temp_source_id p # ?body) = 1 + 2 * n"
    using n by (simp add: length_concat_be16)
  have ps: "(ucast (1 + of_nat n * 2 :: u32) :: u8) = of_nat (1 + 2 * n)"
  proof -
    have "(1 + of_nat n * 2 :: u32) = of_nat (1 + 2 * n)" by simp
    then show ?thesis by (simp only: ucast_of_nat_u32_u8)
  qed
  have sp: "CRSF_send_payload (generate_CRC 0xD5 table) (temp_source_id p # ?body) dest CRSF_TYPE_TEMP
              (of_nat (1 + 2 * n))
            = Inr ([crsf_dest_value dest, of_nat (1 + 2 * n + 2), 0x0D] @ (temp_source_id p # ?body)
                   @ [crc8_ref 0xD5 (0x0D # temp_source_id p # ?body)])"
    by (rule trans[OF send_payload_sized[OF t len]]) (use n in simp_all)
  have bytes: "crsf_temp_bytes (p\<lparr>temp_value := map bswap16 (temp_value p)\<rparr>)
               = temp_source_id p # ?body"
    by (simp add: crsf_temp_bytes_def concat_le16_bswap16 del: map_map)
  show ?thesis
    unfolding CRSF_send_temp_data_def Let_def un ps loop sum.case bytes sp
    by simp
qed









lemma rpm_wire_over_19:
  assumes "length table = 256" and "19 < unat num_values"
    and "unat num_values \<le> length rpm_values"
  shows "CRSF_send_rpm_values (generate_CRC 0xD5 table) True dest source_id rpm_values num_values
     = Inr ([crsf_dest_value dest, 60, 0x0C, source_id]
            @ concat (map (\<lambda>v. be24 (ucast v)) (take 19 rpm_values))
            @ [crc8_ref 0xD5 (0x0C # source_id
                 # concat (map (\<lambda>v. be24 (ucast v)) (take 19 rpm_values)))])"
proof -
  have "min 19 (unat num_values) = 19" using assms(2) by simp
  with rpm_wire[OF assms(1,3), of dest source_id] show ?thesis by simp
qed

lemma battery_capacity_below_16_bits:
  fixes c :: "24 word"
  assumes "c < 65536"
  shows "[0, ucast (drop_bit 8 c), ucast c] = be24 c"
proof -
  have "unat c < 2 ^ 16" using assms by (simp add: word_less_nat_alt)
  then have "unat (drop_bit 16 c) = 0" by (simp add: drop_bit_eq_div unat_div)
  then have "drop_bit 16 c = 0" by (simp only: unat_eq_0)
  then show ?thesis by (simp add: be24_def)
qed

lemma init_table_eq:
  "crc8_table (CRSF_init timer_created (crsf_static_init t0)) = generate_CRC 0xD5 crc8_table_zero"
  by (simp add: CRSF_init_table crsf_static_init_table)

text \<open>
  Claim C6. For every 32-bit value \<open>v\<close> in the signed 24-bit range, the triplet that
  \<open>CRSF_send_rpm_values\<close> stores for it, \<open>int32_to_int24(bswap24(v))\<close>, is the low 24
  bits of \<open>v\<close> most significant byte first; unpacking that triplet (big-endian read,
  sign extension from bit 23 by \<open>int24_to_int32\<close>) gives \<open>v\<close> again; so does the pair
  \<open>int32_to_int24\<close>, \<open>int24_to_int32\<close> on its own; and the frame sent for the single
  value \<open>v\<close> carries exactly this triplet after the source id.
\<close>

theorem rpm_pack_unpack:
  assumes "- 8388608 \<le> sint v" and "sint v \<le> 8388607"
  shows "int24_bytes (int32_to_int24 (bswap24 v)) = be24 (ucast v)
         \<and> rpm_unpack (int24_bytes (int32_to_int24 (bswap24 v))) = v
         \<and> int24_to_int32 (int32_to_int24 v) = v
         \<and> CRSF_send_rpm_values (crc8_table (CRSF_init timer_created (crsf_static_init t0)))
              True dest source_id [v] 1
            = Inr ([crsf_dest_value dest, 6, 0x0C, source_id]
                   @ int24_bytes (int32_to_int24 (bswap24 v))
                   @ [frame_checksum 0x0C (source_id # int24_bytes (int32_to_int24 (bswap24 v)))])"
proof (intro conjI)
  show "int24_bytes (int32_to_int24 (bswap24 v)) = be24 (ucast v)"
    by (rule rpm_triplet_be)
  show rt: "rpm_unpack (int24_bytes (int32_to_int24 (bswap24 v))) = v"
    by (rule rpm_roundtrip[OF assms])
  show "int24_to_int32 (int32_to_int24 v) = v"
    using rt unfolding int24_struct_unpack rpm_triplet_be .
  have "unat (1 :: u32) \<le> length [v]" by simp
  from rpm_wire[OF crc8_table_zero_length this, of dest source_id]
  show "CRSF_send_rpm_values (crc8_table (CRSF_init timer_created (crsf_static_init t0)))
              True dest source_id [v] 1
            = Inr ([crsf_dest_value dest, 6, 0x0C, source_id]
                   @ int24_bytes (int32_to_int24 (bswap24 v))
                   @ [frame_checksum 0x0C (source_id # int24_bytes (int32_to_int24 (bswap24 v)))])"
    unfolding init_table_eq rpm_triplet_be frame_checksum_def by simp
qed

theorem rpm_pack_unpack_witness:
  "- 8388608 \<le> sint (- 1000 :: u32) \<and> sint (- 1000 :: u32) \<le> 8388607
   \<and> int24_bytes (int32_to_int24 (bswap24 (- 1000))) = [0xFF, 0xFC, 0x18]
   \<and> rpm_unpack [0xFF, 0xFC, 0x18] = - 1000
   \<and> int24_bytes (int32_to_int24 (bswap24 8388607)) = [0x7F, 0xFF, 0xFF]
   \<and> rpm_unpack [0x7F, 0xFF, 0xFF] = 8388607
   \<and> int24_bytes (int32_to_int24 (bswap24 (- 8388608))) = [0x80, 0x00, 0x00]
   \<and> rpm_unpack [0x80, 0x00, 0x00] = - 8388608"
proof -
  have r: "- 8388608 \<le> sint (- 1000 :: u32)" "sint (- 1000 :: u32) \<le> 8388607"
    and rmax: "- 8388608 \<le> sint (8388607 :: u32)" "sint (8388607 :: u32) \<le> 8388607"
    and rmin: "- 8388608 \<le> sint (- 8388608 :: u32)" "sint (- 8388608 :: u32) \<le> 8388607"
    by simp_all
  have e: "int24_bytes (int32_to_int24 (bswap24 (- 1000))) = [0xFF, 0xFC, 0x18]"
    and emax: "int24_bytes (int32_to_int24 (bswap24 8388607)) = [0x7F, 0xFF, 0xFF]"
    and emin: "int24_bytes (int32_to_int24 (bswap24 (- 8388608))) = [0x80, 0x00, 0x00]"
    by (simp_all add: int24_bytes_def int32_to_int24_def bswap24_def)
  have "rpm_unpack (int24_bytes (int32_to_int24 (bswap24 (- 1000)))) = - 1000"
    and "rpm_unpack (int24_bytes (int32_to_int24 (bswap24 8388607))) = 8388607"
    and "rpm_unpack (int24_bytes (int32_to_int24 (bswap24 (- 8388608)))) = - 8388608"
    using rpm_pack_unpack[OF r] rpm_pack_unpack[OF rmax] rpm_pack_unpack[OF rmin] by blast+
  then show ?thesis unfolding e emax emin using r by blast
qed

text \<open>
  Claim C7, at an input where the code departs from it. For the capacity 70000 mAh
  (0x011170) \<open>CRSF_send_battery_data\<close> puts the bytes 0x00 0x11 0x70 into the capacity
  field of the frame, where the big-endian 24-bit value is 0x01 0x11 0x70: \<open>__bswap16\<close>
  takes only the low 16 bits of the 24-bit field, so bits 16 to 23 are lost. For
  every capacity the field is 0, bits 8-15, bits 0-7 (lemma \<open>battery_wire\<close>), which
  is the big-endian capacity exactly when the capacity is below 65536
  (lemma \<open>battery_capacity_below_16_bits\<close>).
\<close>

theorem battery_capacity_truncated:
  "CRSF_send_battery_data (crc8_table (CRSF_init True (crsf_static_init 0))) CRSF_DEST_FC
     \<lparr>voltage = 168, current = 15, capacity = 70000, remaining = 50\<rparr>
   = Inr (\<lparr>voltage = 43008, current = 3840, capacity = 7344384, remaining = 50\<rparr>,
          [0xC8, 10, 0x08, 0, 168, 0, 15, 0, 17, 112, 50, 207])
   \<and> be24 70000 = [1, 17, 112]"
  unfolding init_table_eq battery_wire[OF crc8_table_zero_length]
  by (simp add: be16_def be24_def bswap16_def crc8_eval)

text \<open>
  Claim C8, at an input where the code departs from it. \<open>CRSF_send_temp_data\<close> has no
  cap on \<open>num_temps\<close>: called with 25 entries it sends a frame with all 25 entries
  (length byte 53, a 51-byte payload). \<open>CRSF_send_rpm_values\<close> does cap: it encodes
  \<open>min 19 num_values\<close> entries (lemma \<open>rpm_wire\<close>), so with more than 19 entries
  exactly the first 19 are sent and the rest dropped (lemma \<open>rpm_wire_over_19\<close>).
\<close>

theorem temp_send_25_entries:
  "CRSF_send_temp_data (crc8_table (CRSF_init True (crsf_static_init 0))) CRSF_DEST_FC
     \<lparr>temp_source_id = 1,
      temp_value = [1, 2, 3, 4, 5, 6, 7, 8, 9, 10, 11, 12, 13, 14, 15, 16, 17, 18, 19, 20,
                    21, 22, 23, 24, 25]\<rparr> 25
   = Inr (\<lparr>temp_source_id = 1,
            temp_value = [256, 512, 768, 1024, 1280, 1536, 1792, 2048, 2304, 2560, 2816,
                          3072, 3328, 3584, 3840, 4096, 4352, 4608, 4864, 5120, 5376,
                          5632, 5888, 6144, 6400]\<rparr>,
          [0xC8, 53, 0x0D, 1, 0, 1, 0, 2, 0, 3, 0, 4, 0, 5, 0, 6, 0, 7, 0, 8, 0, 9,
           0, 10, 0, 11, 0, 12, 0, 13, 0, 14, 0, 15, 0, 16, 0, 17, 0, 18, 0, 19,
           0, 20, 0, 21, 0, 22, 0, 23, 0, 24, 0, 25, 140])"
proof -
  let ?p = "\<lparr>temp_source_id = 1,
      temp_value = [1, 2, 3, 4, 5, 6, 7, 8, 9, 10, 11, 12, 13, 14, 15, 16, 17, 18, 19, 20,
                    21, 22, 23, 24, 25 :: u16]\<rparr>"
  have l: "length (temp_value ?p) = 25" by simp
  have "CRSF_send_temp_data (generate_CRC 0xD5 crc8_table_zero) CRSF_DEST_FC ?p (of_nat 25) = 
     Inr (?p\<lparr>temp_value := map bswap16 (temp_value ?p)\<rparr>,
            [crsf_dest_value CRSF_DEST_FC, of_nat (1 + 2 * 25 + 2), 0x0D, temp_source_id ?p]
            @ concat (map be16 (temp_value ?p))
            @ [crc8_ref 0xD5 (0x0D # temp_source_id ?p # concat (map be16 (temp_value ?p)))])"
    by (rule temp_wire[OF crc8_table_zero_length l]) simp
  then show ?thesis
    unfolding init_table_eq
    by (simp add: be16_def bswap16_def crc8_eval)
qed






section \<open>Properties of the receive task\<close>

lemma length_dtmp_of: "length bytes \<le> RX_BUF_SIZE \<Longrightarrow> length (dtmp_of bytes) = RX_BUF_SIZE"
  by (simp add: dtmp_of_def)

lemma rx_payload_take:
  assumes "length dtmp = RX_BUF_SIZE"
  shows "rx_payload dtmp payload_length = take (unat payload_length) (drop 3 dtmp)"
proof (rule nth_equalityI)
  have "unat payload_length < 256" using unsigned_less[of payload_length] by simp
  then have b: "unat payload_length + 3 \<le> length dtmp" using assms by (simp add: RX_BUF_SIZE_def)
  then show "length (rx_payload dtmp payload_length) = length (take (unat payload_length) (drop 3 dtmp))"
    by (simp add: rx_payload_def)
  fix i assume "i < length (rx_payload dtmp payload_length)"
  then have "i < unat payload_length" by (simp add: rx_payload_def)
  then show "rx_payload dtmp payload_length ! i = take (unat payload_length) (drop 3 dtmp) ! i"
    using b by (simp add: rx_payload_def add.commute)
qed

lemma dtmp_of_pad:
  "length bytes + k \<le> RX_BUF_SIZE \<Longrightarrow> dtmp_of (bytes @ replicate k 0) = dtmp_of bytes"
  by (simp add: dtmp_of_def replicate_add[symmetric])

lemma dtmp_of_wire_frame:
  "dtmp_of (wire_frame dest type payload c) =
     dest # of_nat (length payload + 2) # type # payload @ c
       # replicate (RX_BUF_SIZE - (length payload + 4)) 0"
  by (simp add: dtmp_of_def wire_frame_def)

lemma len_minus_2: "(of_nat (n + 2) :: u8) - 2 = of_nat n"
  by simp

text \<open>What the receive task does with a frame of the wire format, whatever its checksum byte.\<close>

lemma rx_wire_frame:
  assumes n: "length payload \<le> 253"
  shows "rx_task_event (UART_DATA (wire_frame dest type payload c)) s =
     (if type = 0x16
      then if length payload < 22 then Inl Overread
           else Inr (s\<lparr>received_channels := crsf_channels_of_bytes payload,
                       failsafe_timer := (case failsafe_timer s of None \<Rightarrow> None
                                          | Some t \<Rightarrow> Some (xTimerReset (now_ms s) t)),
                       failsafe_flag := False\<rparr>)
      else if type = 0x14
      then if length payload < 10 then Inl Overread
           else Inr (s\<lparr>received_link_statistics := crsf_link_statistics_of_bytes payload\<rparr>)
      else Inr s)"
proof -
  let ?f = "wire_frame dest type payload c"
  have lf: "length ?f = length payload + 4" by (simp add: wire_frame_def)
  then have small: "\<not> RX_BUF_SIZE < length ?f" using n by (simp add: RX_BUF_SIZE_def)
  have ld: "length (dtmp_of ?f) = RX_BUF_SIZE"
    using small by (intro length_dtmp_of) simp
  have t: "dtmp_of ?f ! 2 = type" and l: "dtmp_of ?f ! 1 = of_nat (length payload + 2)"
    by (simp_all add: dtmp_of_wire_frame)
  have un: "unat (of_nat (length payload) :: u8) = length payload"
    using n by (simp add: unat_of_nat_u8)
  have p: "rx_payload (dtmp_of ?f) (of_nat (length payload + 2) - 2) = payload"
    unfolding len_minus_2 rx_payload_take[OF ld] un by (simp add: dtmp_of_wire_frame)
  show ?thesis
    unfolding rx_task_event_def uart_event_t.case Let_def t l p
    using small by (simp add: un del: of_nat_add)
qed

lemma channels_1_22:
  "crsf_channels_of_bytes [1, 2, 3, 4, 5, 6, 7, 8, 9, 10, 11, 12, 13, 14, 15, 16, 17, 18, 19, 20, 21, 22]
   = \<lparr>ch1 = 513, ch2 = 96, ch3 = 1040, ch4 = 770, ch5 = 112, ch6 = 528, ch7 = 642, ch8 = 88,
      ch9 = 1292, ch10 = 449, ch11 = 60, ch12 = 136, ch13 = 289, ch14 = 38, ch15 = 1349, ch16 = 176\<rparr>"
  by (simp add: crsf_channels_of_bytes_def bitfield11_def drop_bit_eq_div)


lemma dtmp_of_nth: "i < length bytes \<Longrightarrow> dtmp_of bytes ! i = bytes ! i"
  by (simp add: dtmp_of_def nth_append)

lemma CRSF_init_fields:
  "received_channels (CRSF_init tc s) = received_channels s"
  "received_link_statistics (CRSF_init tc s) = received_link_statistics s"
  "failsafe_flag (CRSF_init tc s) = failsafe_flag s"
  "now_ms (CRSF_init tc s) = now_ms s"
  "failsafe_timer (CRSF_init True s) = Some \<lparr>timer_period = 500, timer_expiry = Some (now_ms s + 500)\<rparr>"
  "failsafe_timer (CRSF_init False s) = None"
  by (simp_all add: CRSF_init_def Let_def xTimerCreate_def xTimerStart_def)

lemma crsf_static_init_fields:
  "received_channels (crsf_static_init t0) = crsf_channels_zero"
  "received_link_statistics (crsf_static_init t0) = crsf_link_statistics_zero"
  "failsafe_flag (crsf_static_init t0)"
  "now_ms (crsf_static_init t0) = t0"
  "failsafe_timer (crsf_static_init t0) = None"
  by (simp_all add: crsf_static_init_def)

lemma rx_unhandled_type:
  assumes "length bytes \<le> RX_BUF_SIZE"
    and "dtmp_of bytes ! 2 \<noteq> crsf_type_value CRSF_TYPE_CHANNELS"
    and "dtmp_of bytes ! 2 \<noteq> crsf_type_value CRSF_TYPE_LINK_STATISTICS"
  shows "rx_task_event (UART_DATA bytes) s = Inr s"
  using assms by (simp add: rx_task_event_def Let_def)

lemma rx_zero_padding:
  assumes "length bytes + k \<le> RX_BUF_SIZE"
  shows "rx_task_event (UART_DATA (bytes @ replicate k 0)) s = rx_task_event (UART_DATA bytes) s"
  using assms by (simp add: rx_task_event_def dtmp_of_pad)

lemma rx_channels_prefix:
  assumes c: "length chans = 22" and m: "m \<le> 22"
  shows "rx_task_event (UART_DATA ([dest, 24, 0x16] @ take m chans)) s
         = Inr (s\<lparr>received_channels := crsf_channels_of_bytes (take m chans @ replicate (22 - m) 0),
                  failsafe_timer := (case failsafe_timer s of None \<Rightarrow> None
                                     | Some t \<Rightarrow> Some (xTimerReset (now_ms s) t)),
                  failsafe_flag := False\<rparr>)"
proof -
  let ?pre = "[dest, 24, 0x16] @ take m chans"
  let ?pay = "take m chans @ replicate (22 - m) 0"
  have lp: "length ?pay = 22" using c m by simp
  have "?pre @ replicate (23 - m) 0 = wire_frame dest 0x16 ?pay 0"
  proof -
    have "23 - m = Suc (22 - m)" using m by simp
    then have "replicate (23 - m) (0 :: u8) = replicate (22 - m) 0 @ [0]"
      by (simp add: replicate_append_same)
    then show ?thesis unfolding wire_frame_def lp by simp
  qed
  moreover have "length ?pre + (23 - m) \<le> RX_BUF_SIZE"
    using c m by (simp add: RX_BUF_SIZE_def)
  ultimately have "rx_task_event (UART_DATA ?pre) s
                   = rx_task_event (UART_DATA (wire_frame dest 0x16 ?pay 0)) s"
    using rx_zero_padding[of ?pre "23 - m" s] by simp
  also have "\<dots> = Inr (s\<lparr>received_channels := crsf_channels_of_bytes ?pay,
                  failsafe_timer := (case failsafe_timer s of None \<Rightarrow> None
                                     | Some t \<Rightarrow> Some (xTimerReset (now_ms s) t)),
                  failsafe_flag := False\<rparr>)"
    by (subst rx_wire_frame) (use lp in simp_all)
  finally show ?thesis .
qed

lemma channels_1_7:
  "crsf_channels_of_bytes [1, 2, 3, 4, 5, 6, 7, 0, 0, 0, 0, 0, 0, 0, 0, 0, 0, 0, 0, 0, 0, 0]
   = \<lparr>ch1 = 513, ch2 = 96, ch3 = 1040, ch4 = 770, ch5 = 112, ch6 = 0, ch7 = 0, ch8 = 0,
      ch9 = 0, ch10 = 0, ch11 = 0, ch12 = 0, ch13 = 0, ch14 = 0, ch15 = 0, ch16 = 0\<rparr>"
  by (simp add: crsf_channels_of_bytes_def bitfield11_def drop_bit_eq_div)

text \<open>
  Claim C10. For every received frame whose type byte (\<open>dtmp[2]\<close>) is neither the
  channels type 0x16 nor the link-statistics type 0x14 (battery, GPS, RPM, temperature
  and unrecognised types alike), the receive task returns the state it was given: the
  stored channel data, the stored link statistics, the failsafe flag and the timer are
  all unchanged.
\<close>

theorem rx_other_types_leave_state:
  assumes "length bytes \<le> RX_BUF_SIZE"
    and "dtmp_of bytes ! 2 \<noteq> crsf_type_value CRSF_TYPE_CHANNELS"
    and "dtmp_of bytes ! 2 \<noteq> crsf_type_value CRSF_TYPE_LINK_STATISTICS"
  shows "rx_task_event (UART_DATA bytes) s = Inr s"
  using assms by (rule rx_unhandled_type)

theorem rx_other_types_leave_state_witness:
  "length [0xC8, 10, 0x08, 0, 168, 0, 15, 0, 19, 136, 50, 85 :: u8] \<le> RX_BUF_SIZE
   \<and> dtmp_of [0xC8, 10, 0x08, 0, 168, 0, 15, 0, 19, 136, 50, 85] ! 2 = crsf_type_value CRSF_TYPE_BATTERY
   \<and> rx_task_event (UART_DATA [0xC8, 10, 0x08, 0, 168, 0, 15, 0, 19, 136, 50, 85])
        (CRSF_init True (crsf_static_init 0))
      = Inr (CRSF_init True (crsf_static_init 0))"
proof -
  let ?b = "[0xC8, 10, 0x08, 0, 168, 0, 15, 0, 19, 136, 50, 85 :: u8]"
  have l: "length ?b \<le> RX_BUF_SIZE" by (simp add: RX_BUF_SIZE_def)
  have t: "dtmp_of ?b ! 2 = crsf_type_value CRSF_TYPE_BATTERY" by (simp add: dtmp_of_nth)
  have a: "dtmp_of ?b ! 2 \<noteq> crsf_type_value CRSF_TYPE_CHANNELS"
    and b: "dtmp_of ?b ! 2 \<noteq> crsf_type_value CRSF_TYPE_LINK_STATISTICS"
    unfolding t by simp_all
  show ?thesis using rx_other_types_leave_state[OF l a b] l t by blast
qed

text \<open>
  Claim C1 fails: the receive task never looks at the checksum byte. The well-formed
  channels frame with payload 1, 2, ..., 22 has checksum 0x7A; the same frame with bit 0
  of the checksum flipped (0x7B) is not discarded: it overwrites the stored channel
  data (all zero before), re-arms the failsafe timer and clears the failsafe flag.
\<close>

theorem rx_accepts_corrupt_checksum:
  "frame_checksum 0x16 [1, 2, 3, 4, 5, 6, 7, 8, 9, 10, 11, 12, 13, 14, 15, 16, 17, 18, 19, 20, 21, 22]
     = 0x7A
   \<and> rx_task_event
        (UART_DATA [0xC8, 24, 0x16, 1, 2, 3, 4, 5, 6, 7, 8, 9, 10, 11, 12, 13, 14, 15, 16, 17,
                    18, 19, 20, 21, 22, 0x7B])
        (CRSF_init True (crsf_static_init 0))
     = Inr ((CRSF_init True (crsf_static_init 0))
              \<lparr>received_channels :=
                 \<lparr>ch1 = 513, ch2 = 96, ch3 = 1040, ch4 = 770, ch5 = 112, ch6 = 528, ch7 = 642,
                  ch8 = 88, ch9 = 1292, ch10 = 449, ch11 = 60, ch12 = 136, ch13 = 289,
                  ch14 = 38, ch15 = 1349, ch16 = 176\<rparr>,
               failsafe_timer := Some \<lparr>timer_period = 500, timer_expiry = Some 500\<rparr>,
               failsafe_flag := False\<rparr>)
   \<and> received_channels (CRSF_init True (crsf_static_init 0)) = crsf_channels_zero
   \<and> failsafe_flag (CRSF_init True (crsf_static_init 0))"
proof -
  let ?p = "[1, 2, 3, 4, 5, 6, 7, 8, 9, 10, 11, 12, 13, 14, 15, 16, 17, 18, 19, 20, 21, 22 :: u8]"
  have c: "frame_checksum 0x16 ?p = 0x7A"
    by (simp add: frame_checksum_def crc8_eval)
  have f: "[0xC8, 24, 0x16, 1, 2, 3, 4, 5, 6, 7, 8, 9, 10, 11, 12, 13, 14, 15, 16, 17,
                    18, 19, 20, 21, 22, 0x7B] = wire_frame 0xC8 0x16 ?p 0x7B"
    by (simp add: wire_frame_def)
  have l: "length ?p \<le> 253" by simp
  show ?thesis
    unfolding f rx_wire_frame[OF l] channels_1_22
    using c by (simp add: CRSF_init_fields crsf_static_init_fields xTimerReset_def)
qed

text \<open>
  Claim C1, amended. The receive task processes every frame exactly as it would process
  the same frame with a correct checksum byte; the checksum byte is never read. So a
  channels frame whose checksum byte is wrong is not discarded: it is processed without
  a fault, overwrites the stored channel data, re-arms the failsafe timer and clears the
  failsafe flag; and the well-formed channels frame that follows it is decoded as usual.
\<close>

theorem rx_ignores_checksum:
  assumes "length payload \<le> 60" and "length chans = 22" and "length chans2 = 22"
  shows "rx_task_event (UART_DATA (wire_frame dest type payload c)) s
           = rx_task_event (UART_DATA (wire_frame dest type payload (frame_checksum type payload))) s
       \<and> rx_task_event (UART_DATA (wire_frame dest 0x16 chans c)) s
           = Inr (s\<lparr>received_channels := crsf_channels_of_bytes chans,
                    failsafe_timer := (case failsafe_timer s of None \<Rightarrow> None
                                       | Some t \<Rightarrow> Some (xTimerReset (now_ms s) t)),
                    failsafe_flag := False\<rparr>)
       \<and> run [Rx (UART_DATA (wire_frame dest 0x16 chans c)),
               Rx (UART_DATA (wire_frame dest2 0x16 chans2 (frame_checksum 0x16 chans2)))] s
           = Inr (s\<lparr>received_channels := crsf_channels_of_bytes chans2,
                    failsafe_timer := (case failsafe_timer s of None \<Rightarrow> None
                                       | Some t \<Rightarrow> Some (xTimerReset (now_ms s) t)),
                    failsafe_flag := False\<rparr>)"
proof -
  have p: "length payload \<le> 253" and a: "length chans \<le> 253" and b: "length chans2 \<le> 253"
    using assms by simp_all
  show ?thesis
    unfolding run.simps sys_step.simps rx_wire_frame[OF p] rx_wire_frame[OF a] sum.case
      rx_wire_frame[OF b]
    using assms(2,3) by (cases "failsafe_timer s") (simp_all add: xTimerReset_def)
qed

theorem rx_ignores_checksum_witness:
  "length [0x10, 0x20, 0x30 :: u8] \<le> 60 \<and> length (replicate 22 (0xFF :: u8)) = 22
   \<and> rx_task_event (UART_DATA (wire_frame 0xC8 0x14 [0x10, 0x20, 0x30] 0x00)) (crsf_static_init 0)
      = rx_task_event (UART_DATA (wire_frame 0xC8 0x14 [0x10, 0x20, 0x30]
                                    (frame_checksum 0x14 [0x10, 0x20, 0x30]))) (crsf_static_init 0)
   \<and> rx_task_event (UART_DATA (wire_frame 0xC8 0x16 (replicate 22 0xFF) 0x00)) (crsf_static_init 0)
      = Inr ((crsf_static_init 0)\<lparr>received_channels := crsf_channels_of_bytes (replicate 22 0xFF),
               failsafe_timer := None, failsafe_flag := False\<rparr>)"
proof -
  have h: "length [0x10, 0x20, 0x30 :: u8] \<le> 60" "length (replicate 22 (0xFF :: u8)) = 22"
    by simp_all
  show ?thesis
    using rx_ignores_checksum[OF h h(2), of "0xC8" "0x14" "0x00" "crsf_static_init 0" "0xC8"] h
    by (simp add: crsf_static_init_fields)
qed

text \<open>
  Claim C5 fails: the receive task does not wait for the rest of a frame. The well-formed
  channels frame with payload 1, 2, ..., 22 (checksum 0x7A), delivered as a first read
  event of 10 bytes and a second of 16 bytes, is decoded from the first event alone,
  with 7 of its 22 payload bytes and zeros for the rest; the second event is taken for a
  frame of type 0x0A and ignored. The stored channels differ from those of the frame
  delivered whole.
\<close>

theorem rx_decodes_fragment_at_once:
  "frame_checksum 0x16 [1, 2, 3, 4, 5, 6, 7, 8, 9, 10, 11, 12, 13, 14, 15, 16, 17, 18, 19, 20, 21, 22]
     = 0x7A
   \<and> rx_task_event (UART_DATA [0xC8, 24, 0x16, 1, 2, 3, 4, 5, 6, 7]) (crsf_static_init 0)
     = Inr ((crsf_static_init 0)
              \<lparr>received_channels :=
                 \<lparr>ch1 = 513, ch2 = 96, ch3 = 1040, ch4 = 770, ch5 = 112, ch6 = 0, ch7 = 0,
                  ch8 = 0, ch9 = 0, ch10 = 0, ch11 = 0, ch12 = 0, ch13 = 0, ch14 = 0,
                  ch15 = 0, ch16 = 0\<rparr>,
               failsafe_timer := None, failsafe_flag := False\<rparr>)
   \<and> run [Rx (UART_DATA [0xC8, 24, 0x16, 1, 2, 3, 4, 5, 6, 7]),
           Rx (UART_DATA [8, 9, 10, 11, 12, 13, 14, 15, 16, 17, 18, 19, 20, 21, 22, 0x7A])]
        (crsf_static_init 0)
     = Inr ((crsf_static_init 0)
              \<lparr>received_channels :=
                 \<lparr>ch1 = 513, ch2 = 96, ch3 = 1040, ch4 = 770, ch5 = 112, ch6 = 0, ch7 = 0,
                  ch8 = 0, ch9 = 0, ch10 = 0, ch11 = 0, ch12 = 0, ch13 = 0, ch14 = 0,
                  ch15 = 0, ch16 = 0\<rparr>,
               failsafe_timer := None, failsafe_flag := False\<rparr>)
   \<and> rx_task_event
        (UART_DATA [0xC8, 24, 0x16, 1, 2, 3, 4, 5, 6, 7, 8, 9, 10, 11, 12, 13, 14, 15, 16, 17,
                    18, 19, 20, 21, 22, 0x7A])
        (crsf_static_init 0)
     = Inr ((crsf_static_init 0)
              \<lparr>received_channels :=
                 \<lparr>ch1 = 513, ch2 = 96, ch3 = 1040, ch4 = 770, ch5 = 112, ch6 = 528, ch7 = 642,
                  ch8 = 88, ch9 = 1292, ch10 = 449, ch11 = 60, ch12 = 136, ch13 = 289,
                  ch14 = 38, ch15 = 1349, ch16 = 176\<rparr>,
               failsafe_timer := None, failsafe_flag := False\<rparr>)"
proof -
  let ?p = "[1, 2, 3, 4, 5, 6, 7, 8, 9, 10, 11, 12, 13, 14, 15, 16, 17, 18, 19, 20, 21, 22 :: u8]"
  let ?s1 = "(crsf_static_init 0)
              \<lparr>received_channels :=
                 \<lparr>ch1 = 513, ch2 = 96, ch3 = 1040, ch4 = 770, ch5 = 112, ch6 = 0, ch7 = 0,
                  ch8 = 0, ch9 = 0, ch10 = 0, ch11 = 0, ch12 = 0, ch13 = 0, ch14 = 0,
                  ch15 = 0, ch16 = 0\<rparr>,
               failsafe_timer := None, failsafe_flag := False\<rparr>"
  have c: "frame_checksum 0x16 ?p = 0x7A"
    by (simp add: frame_checksum_def crc8_eval)
  have l: "length ?p = 22" by simp
  have first: "rx_task_event (UART_DATA [0xC8, 24, 0x16, 1, 2, 3, 4, 5, 6, 7]) (crsf_static_init 0)
               = Inr ?s1"
  proof -
    have r: "replicate 15 (0 :: u8) = [0, 0, 0, 0, 0, 0, 0, 0, 0, 0, 0, 0, 0, 0, 0]"
      by (simp add: eval_nat_numeral)
    show ?thesis
      using rx_channels_prefix[OF l, of 7 "0xC8" "crsf_static_init 0"]
      by (simp add: r channels_1_7 crsf_static_init_fields)
  qed
  have second: "rx_task_event
                  (UART_DATA [8, 9, 10, 11, 12, 13, 14, 15, 16, 17, 18, 19, 20, 21, 22, 0x7A]) ?s1
                = Inr ?s1"
    by (rule rx_unhandled_type) (simp_all add: RX_BUF_SIZE_def dtmp_of_nth)
  have f: "[0xC8, 24, 0x16, 1, 2, 3, 4, 5, 6, 7, 8, 9, 10, 11, 12, 13, 14, 15, 16, 17,
                    18, 19, 20, 21, 22, 0x7A] = wire_frame 0xC8 0x16 ?p 0x7A"
    by (simp add: wire_frame_def)
  have lp: "length ?p \<le> 253" by simp
  have whole: "rx_task_event (UART_DATA (wire_frame 0xC8 0x16 ?p 0x7A)) (crsf_static_init 0)
      = Inr ((crsf_static_init 0)
              \<lparr>received_channels :=
                 \<lparr>ch1 = 513, ch2 = 96, ch3 = 1040, ch4 = 770, ch5 = 112, ch6 = 528, ch7 = 642,
                  ch8 = 88, ch9 = 1292, ch10 = 449, ch11 = 60, ch12 = 136, ch13 = 289,
                  ch14 = 38, ch15 = 1349, ch16 = 176\<rparr>,
               failsafe_timer := None, failsafe_flag := False\<rparr>)"
    unfolding rx_wire_frame[OF lp] channels_1_22
    by (simp add: crsf_static_init_fields)
  show ?thesis
    unfolding f[symmetric] run.simps sys_step.simps first sum.case second
    using c first whole[unfolded f[symmetric]] by blast
qed

text \<open>
  Claim C5, amended. The receive task decodes every read event at once and on its own,
  as one frame that starts at the first byte of the event; bytes that the event did not
  deliver are read as zero. A well-formed channels frame delivered whole in one read
  event yields exactly one decoded frame, the stored channels being its 22 payload
  bytes. Nothing is deferred: a read event that holds only the header and the first
  \<open>m\<close> payload bytes of such a frame is decoded immediately, as the frame whose
  payload is those \<open>m\<close> bytes followed by zeros.
\<close>

theorem rx_decodes_each_event_alone:
  assumes "length bytes + k \<le> RX_BUF_SIZE" and "length chans = 22" and "m \<le> 22"
  shows "rx_task_event (UART_DATA bytes) s = rx_task_event (UART_DATA (bytes @ replicate k 0)) s
       \<and> rx_task_event (UART_DATA (wire_frame dest 0x16 chans (frame_checksum 0x16 chans))) s
           = Inr (s\<lparr>received_channels := crsf_channels_of_bytes chans,
                    failsafe_timer := (case failsafe_timer s of None \<Rightarrow> None
                                       | Some t \<Rightarrow> Some (xTimerReset (now_ms s) t)),
                    failsafe_flag := False\<rparr>)
       \<and> rx_task_event
            (UART_DATA (take (3 + m) (wire_frame dest 0x16 chans (frame_checksum 0x16 chans)))) s
           = Inr (s\<lparr>received_channels :=
                      crsf_channels_of_bytes (take m chans @ replicate (22 - m) 0),
                    failsafe_timer := (case failsafe_timer s of None \<Rightarrow> None
                                       | Some t \<Rightarrow> Some (xTimerReset (now_ms s) t)),
                    failsafe_flag := False\<rparr>)"
proof (intro conjI)
  show "rx_task_event (UART_DATA bytes) s = rx_task_event (UART_DATA (bytes @ replicate k 0)) s"
    using rx_zero_padding[OF assms(1)] by simp
  have a: "length chans \<le> 253" using assms(2) by simp
  show "rx_task_event (UART_DATA (wire_frame dest 0x16 chans (frame_checksum 0x16 chans))) s
           = Inr (s\<lparr>received_channels := crsf_channels_of_bytes chans,
                    failsafe_timer := (case failsafe_timer s of None \<Rightarrow> None
                                       | Some t \<Rightarrow> Some (xTimerReset (now_ms s) t)),
                    failsafe_flag := False\<rparr>)"
    unfolding rx_wire_frame[OF a] using assms(2) by simp
  have "take (3 + m) (wire_frame dest 0x16 chans (frame_checksum 0x16 chans))
        = [dest, 24, 0x16] @ take m chans"
    using assms(2,3) by (simp add: wire_frame_def numeral_3_eq_3)
  then show "rx_task_event
            (UART_DATA (take (3 + m) (wire_frame dest 0x16 chans (frame_checksum 0x16 chans)))) s
           = Inr (s\<lparr>received_channels :=
                      crsf_channels_of_bytes (take m chans @ replicate (22 - m) 0),
                    failsafe_timer := (case failsafe_timer s of None \<Rightarrow> None
                                       | Some t \<Rightarrow> Some (xTimerReset (now_ms s) t)),
                    failsafe_flag := False\<rparr>)"
    using rx_channels_prefix[OF assms(2,3)] by simp
qed

theorem rx_decodes_each_event_alone_witness:
  "length [0xC8, 24, 0x16, 1, 2 :: u8] + 4 \<le> RX_BUF_SIZE
   \<and> length (replicate 22 (0xFF :: u8)) = 22 \<and> (7 :: nat) \<le> 22
   \<and> rx_task_event (UART_DATA [0xC8, 24, 0x16, 1, 2]) (crsf_static_init 0)
      = rx_task_event (UART_DATA ([0xC8, 24, 0x16, 1, 2] @ replicate 4 0)) (crsf_static_init 0)"
proof -
  have h: "length [0xC8, 24, 0x16, 1, 2 :: u8] + 4 \<le> RX_BUF_SIZE"
    "length (replicate 22 (0xFF :: u8)) = 22" "(7 :: nat) \<le> 22"
    by (simp_all add: RX_BUF_SIZE_def)
  show ?thesis
    using rx_decodes_each_event_alone[OF h, of "crsf_static_init 0"] h by blast
qed


section \<open>Properties of the failsafe monitor\<close>

lemma now_ms_elapse: "now_ms (elapse d s) = now_ms s + d"
  by (simp add: elapse_def Let_def failsafe_timer_callback_def split: option.splits)

lemma failsafe_flag_elapse: "failsafe_flag s \<Longrightarrow> failsafe_flag (elapse d s)"
  by (simp add: elapse_def Let_def failsafe_timer_callback_def split: option.splits)

lemma timer_ready_elapse: "timer_ready s \<Longrightarrow> timer_ready (elapse d s)"
  by (auto simp add: timer_ready_def elapse_def Let_def failsafe_timer_callback_def
        split: option.splits)

lemma failsafe_window_elapse:
  "failsafe_window deadline s \<Longrightarrow> failsafe_window deadline (elapse d s)"
  by (auto simp add: failsafe_window_def elapse_def Let_def failsafe_timer_callback_def
        split: option.splits if_splits)

lemma rx_other_event:
  assumes "\<not> is_channels_event (Rx e)" and "rx_task_event e s = Inr s'"
  shows "failsafe_flag s' = failsafe_flag s \<and> failsafe_timer s' = failsafe_timer s
         \<and> now_ms s' = now_ms s"
proof (cases e)
  case (UART_DATA bytes)
  with assms show ?thesis
    by (auto simp add: rx_task_event_def Let_def split: if_splits)
next
  case UART_OTHER
  with assms show ?thesis by (simp add: rx_task_event_def)
qed

lemma rx_channels_event:
  assumes "is_channels_event (Rx e)" and "rx_task_event e s = Inr s'"
  shows "\<not> failsafe_flag s' \<and> now_ms s' = now_ms s
         \<and> failsafe_timer s' = (case failsafe_timer s of None \<Rightarrow> None
                                 | Some t \<Rightarrow> Some (xTimerReset (now_ms s) t))"
proof (cases e)
  case (UART_DATA bytes)
  with assms show ?thesis
    by (auto simp add: rx_task_event_def Let_def split: if_splits)
next
  case UART_OTHER
  with assms show ?thesis by simp
qed

lemma timer_ready_rx: 
  assumes "timer_ready s" and "rx_task_event e s = Inr s'"
  shows "timer_ready s'"
proof (cases "is_channels_event (Rx e)")
  case True
  from rx_channels_event[OF True assms(2)] assms(1) show ?thesis
    by (auto simp add: timer_ready_def xTimerReset_def split: option.splits)
next
  case False
  from rx_other_event[OF False assms(2)] assms(1) show ?thesis
    by (simp add: timer_ready_def)
qed

lemma timer_ready_run: "timer_ready s \<Longrightarrow> run evs s = Inr s' \<Longrightarrow> timer_ready s'"
proof (induction evs arbitrary: s)
  case Nil
  then show ?case by simp
next
  case (Cons ev evs)
  show ?case
  proof (cases ev)
    case (Rx e)
    with Cons.prems obtain s1 where s1: "rx_task_event e s = Inr s1" "run evs s1 = Inr s'"
      by (auto split: sum.splits)
    from timer_ready_rx[OF Cons.prems(1) s1(1)] Cons.IH s1(2) show ?thesis by blast
  next
    case (Elapse d)
    with Cons.prems have "run evs (elapse d s) = Inr s'" by simp
    with Cons.IH timer_ready_elapse[OF Cons.prems(1)] show ?thesis by blast
  qed
qed

lemma timer_ready_init: "timer_ready (CRSF_init True s)"
  by (simp add: timer_ready_def CRSF_init_fields)

lemma failsafe_stays_set:
  "failsafe_flag s \<Longrightarrow> list_all (\<lambda>e. \<not> is_channels_event e) evs \<Longrightarrow> run evs s = Inr s'
   \<Longrightarrow> failsafe_flag s'"
proof (induction evs arbitrary: s)
  case Nil
  then show ?case by simp
next
  case (Cons ev evs)
  show ?case
  proof (cases ev)
    case (Rx e)
    with Cons.prems obtain s1 where s1: "rx_task_event e s = Inr s1" "run evs s1 = Inr s'"
      by (auto split: sum.splits)
    have q: "list_all (\<lambda>e. \<not> is_channels_event e) evs" using Cons.prems(2) by simp
    have "\<not> is_channels_event (Rx e)" using Cons.prems(2) Rx by simp
    from rx_other_event[OF this s1(1)] have "failsafe_flag s1" using Cons.prems(1) by simp
    then show ?thesis using q s1(2) by (rule Cons.IH)
  next
    case (Elapse d)
    have q: "list_all (\<lambda>e. \<not> is_channels_event e) evs" using Cons.prems(2) by simp
    from Elapse Cons.prems have r: "run evs (elapse d s) = Inr s'" by simp
    show ?thesis by (rule Cons.IH[OF failsafe_flag_elapse[OF Cons.prems(1)] q r])
  qed
qed

lemma failsafe_window_run:
  "failsafe_window deadline s \<Longrightarrow> list_all (\<lambda>e. \<not> is_channels_event e) evs
   \<Longrightarrow> run evs s = Inr s'
   \<Longrightarrow> failsafe_window deadline s' \<and> now_ms s' = now_ms s + elapsed evs"
proof (induction evs arbitrary: s)
  case Nil
  then show ?case by simp
next
  case (Cons ev evs)
  show ?case
  proof (cases ev)
    case (Rx e)
    with Cons.prems obtain s1 where s1: "rx_task_event e s = Inr s1" "run evs s1 = Inr s'"
      by (auto split: sum.splits)
    have q: "list_all (\<lambda>e. \<not> is_channels_event e) evs" using Cons.prems(2) by simp
    have "\<not> is_channels_event (Rx e)" using Cons.prems(2) Rx by simp
    from rx_other_event[OF this s1(1)]
    have eqs: "failsafe_flag s1 = failsafe_flag s" "failsafe_timer s1 = failsafe_timer s"
      "now_ms s1 = now_ms s" by simp_all
    have "failsafe_window deadline s1"
      using Cons.prems(1) unfolding failsafe_window_def eqs .
    from Cons.IH[OF this q s1(2)] show ?thesis using eqs(3) Rx by simp
  next
    case (Elapse d)
    have q: "list_all (\<lambda>e. \<not> is_channels_event e) evs" using Cons.prems(2) by simp
    from Elapse Cons.prems have r: "run evs (elapse d s) = Inr s'" by simp
    from Cons.IH[OF failsafe_window_elapse[OF Cons.prems(1)] q r]
    show ?thesis using Elapse by (simp add: now_ms_elapse)
  qed
qed

lemma failsafe_window_opens:
  assumes "timer_ready s" and "is_channels_event (Rx e)" and "rx_task_event e s = Inr s1"
  shows "failsafe_window (now_ms s + 500) s1 \<and> now_ms s1 = now_ms s"
  using rx_channels_event[OF assms(2,3)] assms(1)
  by (auto simp add: failsafe_window_def timer_ready_def xTimerReset_def split: option.splits)

text \<open>After a channels frame, with no further one: the flag is set exactly from 500 ms on.\<close>

lemma failsafe_after_channels:
  assumes "timer_ready s" and "is_channels_event (Rx e)"
    and "list_all (\<lambda>e. \<not> is_channels_event e) quiet"
    and "run (Rx e # quiet) s = Inr s'"
  shows "failsafe_flag s' \<longleftrightarrow> 500 \<le> elapsed quiet"
proof -
  from assms(4) obtain s1 where s1: "rx_task_event e s = Inr s1" "run quiet s1 = Inr s'"
    by (auto split: sum.splits)
  from failsafe_window_opens[OF assms(1,2) s1(1)]
  have w: "failsafe_window (now_ms s + 500) s1" and n: "now_ms s1 = now_ms s" by simp_all
  from failsafe_window_run[OF w assms(3) s1(2)]
  have "failsafe_window (now_ms s + 500) s'" "now_ms s' = now_ms s + elapsed quiet"
    using n by simp_all
  then show ?thesis
    by (auto simp add: failsafe_window_def split: option.splits if_splits)
qed

text \<open>Without a timer (\<open>xTimerCreate\<close> returned \<open>NULL\<close>) time only advances the clock.\<close>

lemma elapse_no_timer:
  "failsafe_timer s = None \<Longrightarrow> elapse d s = s\<lparr>now_ms := now_ms s + d\<rparr>"
  by (simp add: elapse_def Let_def)

lemma wire_frame_is_channels:
  "is_channels_event (Rx (UART_DATA (wire_frame dest 0x16 payload c)))"
  by (simp add: dtmp_of_wire_frame)

text \<open>
  Claim C2 fails as stated, because the receive task takes every read event whose type
  byte is 0x16 for channel data, valid or not. The channels frame with payload
  1, 2, ..., 22 has checksum 0x7A. The same frame with checksum 0x7B, received before
  any valid channels frame, makes \<open>CRSF_is_failsafe\<close> false. After the valid frame,
  499 ms, the frame with checksum 0x7B and another 499 ms, so 998 ms after the last
  valid channels frame, the query is still false. And when \<open>xTimerCreate\<close> returned
  \<open>NULL\<close> in \<open>CRSF_init\<close>, the query is still false 500 ms after the valid frame.
\<close>

theorem failsafe_cleared_by_corrupt_frame:
  "frame_checksum 0x16 [1, 2, 3, 4, 5, 6, 7, 8, 9, 10, 11, 12, 13, 14, 15, 16, 17, 18, 19, 20, 21, 22]
     = 0x7A
   \<and> map_sum id CRSF_is_failsafe
        (run [Rx (UART_DATA [0xC8, 24, 0x16, 1, 2, 3, 4, 5, 6, 7, 8, 9, 10, 11, 12, 13, 14, 15,
                             16, 17, 18, 19, 20, 21, 22, 0x7B])]
           (CRSF_init True (crsf_static_init 0)))
     = Inr False
   \<and> map_sum id CRSF_is_failsafe
        (run [Rx (UART_DATA [0xC8, 24, 0x16, 1, 2, 3, 4, 5, 6, 7, 8, 9, 10, 11, 12, 13, 14, 15,
                             16, 17, 18, 19, 20, 21, 22, 0x7A]),
              Elapse 499,
              Rx (UART_DATA [0xC8, 24, 0x16, 1, 2, 3, 4, 5, 6, 7, 8, 9, 10, 11, 12, 13, 14, 15,
                             16, 17, 18, 19, 20, 21, 22, 0x7B]),
              Elapse 499]
           (CRSF_init True (crsf_static_init 0)))
     = Inr False
   \<and> map_sum id CRSF_is_failsafe
        (run [Rx (UART_DATA [0xC8, 24, 0x16, 1, 2, 3, 4, 5, 6, 7, 8, 9, 10, 11, 12, 13, 14, 15,
                             16, 17, 18, 19, 20, 21, 22, 0x7A]),
              Elapse 500]
           (CRSF_init False (crsf_static_init 0)))
     = Inr False"
proof -
  let ?p = "[1, 2, 3, 4, 5, 6, 7, 8, 9, 10, 11, 12, 13, 14, 15, 16, 17, 18, 19, 20, 21, 22 :: u8]"
  let ?I = "CRSF_init True (crsf_static_init 0)"
  let ?N = "CRSF_init False (crsf_static_init 0)"
  let ?upd = "\<lambda>s. s\<lparr>received_channels := crsf_channels_of_bytes ?p,
                     failsafe_timer := (case failsafe_timer s of None \<Rightarrow> None
                                        | Some t \<Rightarrow> Some (xTimerReset (now_ms s) t)),
                     failsafe_flag := False\<rparr>"
  have c: "frame_checksum 0x16 ?p = 0x7A"
    by (simp add: frame_checksum_def crc8_eval)
  have fv: "[0xC8, 24, 0x16, 1, 2, 3, 4, 5, 6, 7, 8, 9, 10, 11, 12, 13, 14, 15,
                             16, 17, 18, 19, 20, 21, 22, 0x7A] = wire_frame 0xC8 0x16 ?p 0x7A"
    and fc: "[0xC8, 24, 0x16, 1, 2, 3, 4, 5, 6, 7, 8, 9, 10, 11, 12, 13, 14, 15,
                             16, 17, 18, 19, 20, 21, 22, 0x7B] = wire_frame 0xC8 0x16 ?p 0x7B"
    by (simp_all add: wire_frame_def)
  have rx: "rx_task_event (UART_DATA (wire_frame 0xC8 0x16 ?p k)) s = Inr (?upd s)" for k s
    by (subst rx_wire_frame) simp_all
  have ch: "is_channels_event (Rx (UART_DATA (wire_frame 0xC8 0x16 ?p k)))" for k
    by (rule wire_frame_is_channels)
  have a: "run [Rx (UART_DATA (wire_frame 0xC8 0x16 ?p 0x7B))] ?I = Inr (?upd ?I)"
    by (simp add: rx)
  let ?s1 = "elapse 499 (?upd ?I)"
  have r1: "run [Rx (UART_DATA (wire_frame 0xC8 0x16 ?p 0x7A)), Elapse 499] ?I = Inr ?s1"
    by (simp add: rx)
  have t1: "timer_ready ?s1" by (rule timer_ready_run[OF timer_ready_init r1])
  let ?s2 = "elapse 499 (?upd ?s1)"
  have r2: "run (Rx (UART_DATA (wire_frame 0xC8 0x16 ?p 0x7B)) # [Elapse 499]) ?s1 = Inr ?s2"
    by (simp add: rx)
  have "failsafe_flag ?s2 \<longleftrightarrow> 500 \<le> elapsed [Elapse 499]"
    by (rule failsafe_after_channels[OF t1 ch _ r2]) simp
  then have f2: "\<not> failsafe_flag ?s2" by simp
  have b: "run [Rx (UART_DATA (wire_frame 0xC8 0x16 ?p 0x7A)), Elapse 499,
                Rx (UART_DATA (wire_frame 0xC8 0x16 ?p 0x7B)), Elapse 499] ?I = Inr ?s2"
    by (simp add: rx)
  have n: "run [Rx (UART_DATA (wire_frame 0xC8 0x16 ?p 0x7A)), Elapse 500] ?N
           = Inr (elapse 500 (?upd ?N))"
    by (simp add: rx)
  have fn: "\<not> failsafe_flag (elapse 500 (?upd ?N))"
    by (simp add: elapse_no_timer CRSF_init_fields)
  show ?thesis
    unfolding fv fc a b n using c f2 fn by (simp add: CRSF_is_failsafe_def)
qed

text \<open>
  Claim C2, amended. A channels event is a read event that the receive task takes for a
  channels frame: its type byte (\<open>dtmp[2]\<close>) is 0x16; neither the checksum nor the
  alignment of the frame is examined. With the failsafe timer created by \<open>CRSF_init\<close>,
  in every run of the system (read events handled by the receive task without a read
  or write outside its arrays, interleaved with the passing of time):
  \<open>CRSF_is_failsafe\<close> is true from the start and as long as no channels event has
  been processed (states \<open>crsf_static_init\<close>, \<open>s0\<close>); after a channels event is
  processed in any reachable state \<open>s\<close> and as long as no further channels event
  is, it is false while less than 500 ms have passed since the event, in particular
  immediately after it, and true once 500 ms have passed (state \<open>s1\<close>); and when
  a second channels event is processed at any moment, the window starts again from
  that event: the query is false until 500 ms after the second event, whatever time
  has passed since the first (state \<open>s2\<close>).
\<close>

theorem failsafe_lifecycle:
  assumes "list_all (\<lambda>e. \<not> is_channels_event e) before"
    and "run before (CRSF_init True (crsf_static_init t0)) = Inr s0"
    and "run history (CRSF_init True (crsf_static_init t0)) = Inr s"
    and "is_channels_event (Rx frame)"
    and "list_all (\<lambda>e. \<not> is_channels_event e) quiet"
    and "run (Rx frame # quiet) s = Inr s1"
    and "is_channels_event (Rx frame2)"
    and "list_all (\<lambda>e. \<not> is_channels_event e) quiet2"
    and "run (Rx frame2 # quiet2) s1 = Inr s2"
  shows "CRSF_is_failsafe (crsf_static_init t0) \<and> CRSF_is_failsafe s0
       \<and> (CRSF_is_failsafe s1 \<longleftrightarrow> 500 \<le> elapsed quiet)
       \<and> (CRSF_is_failsafe s2 \<longleftrightarrow> 500 \<le> elapsed quiet2)"
proof (intro conjI)
  show "CRSF_is_failsafe (crsf_static_init t0)"
    by (simp add: CRSF_is_failsafe_def crsf_static_init_fields)
  have "failsafe_flag (CRSF_init True (crsf_static_init t0))"
    by (simp add: CRSF_init_fields crsf_static_init_fields)
  from failsafe_stays_set[OF this assms(1,2)]
  show "CRSF_is_failsafe s0" by (simp add: CRSF_is_failsafe_def)
  have r: "timer_ready s" using timer_ready_run[OF timer_ready_init assms(3)] .
  from failsafe_after_channels[OF r assms(4,5,6)]
  show "CRSF_is_failsafe s1 \<longleftrightarrow> 500 \<le> elapsed quiet" by (simp add: CRSF_is_failsafe_def)
  have r1: "timer_ready s1" using timer_ready_run[OF r assms(6)] .
  from failsafe_after_channels[OF r1 assms(7,8,9)]
  show "CRSF_is_failsafe s2 \<longleftrightarrow> 500 \<le> elapsed quiet2" by (simp add: CRSF_is_failsafe_def)
qed

theorem failsafe_lifecycle_witness:
  "\<exists>s0 s1 s2 s3.
     run [Elapse 100, Rx (UART_DATA (wire_frame 0xC8 0x08 [1, 2, 3] 0x68))]
       (CRSF_init True (crsf_static_init 0)) = Inr s0
     \<and> run [Rx (UART_DATA (wire_frame 0xC8 0x16 (replicate 22 0xFF) 0x00)), Elapse 499]
         (CRSF_init True (crsf_static_init 0)) = Inr s1
     \<and> run [Rx (UART_DATA (wire_frame 0xC8 0x16 (replicate 22 0xFF) 0x00)), Elapse 1] s1 = Inr s2
     \<and> run [Rx (UART_DATA (wire_frame 0xC8 0x16 (replicate 22 0xFF) 0x00)), Elapse 500] s1 = Inr s3
     \<and> CRSF_is_failsafe s0 \<and> \<not> CRSF_is_failsafe s1 \<and> \<not> CRSF_is_failsafe s2
     \<and> CRSF_is_failsafe s3"
proof -
  let ?I = "CRSF_init True (crsf_static_init 0)"
  let ?B = "UART_DATA (wire_frame 0xC8 0x08 [1, 2, 3] 0x68)"
  let ?F = "UART_DATA (wire_frame 0xC8 0x16 (replicate 22 0xFF) 0x00)"
  let ?upd = "\<lambda>s. s\<lparr>received_channels := crsf_channels_of_bytes (replicate 22 0xFF),
                     failsafe_timer := (case failsafe_timer s of None \<Rightarrow> None
                                        | Some t \<Rightarrow> Some (xTimerReset (now_ms s) t)),
                     failsafe_flag := False\<rparr>"
  have rxF: "rx_task_event ?F s = Inr (?upd s)" for s
    by (subst rx_wire_frame) simp_all
  have rxB: "rx_task_event ?B s = Inr s" for s
    by (subst rx_wire_frame) simp_all
  have ch: "is_channels_event (Rx ?F)" by (rule wire_frame_is_channels)
  have q0: "list_all (\<lambda>e. \<not> is_channels_event e) [Elapse 100, Rx ?B]"
    by (simp add: dtmp_of_wire_frame)
  have q1: "list_all (\<lambda>e. \<not> is_channels_event e) [Elapse 499]"
    and q2: "list_all (\<lambda>e. \<not> is_channels_event e) [Elapse 1]"
    and q3: "list_all (\<lambda>e. \<not> is_channels_event e) [Elapse 500]"
    by simp_all
  let ?s0 = "elapse 100 ?I"
  let ?s1 = "elapse 499 (?upd ?I)"
  let ?s2 = "elapse 1 (?upd ?s1)"
  let ?s3 = "elapse 500 (?upd ?s1)"
  have r0: "run [Elapse 100, Rx ?B] ?I = Inr ?s0" by (simp add: rxB)
  have h: "run [] ?I = Inr ?I" by simp
  have r1: "run [Rx ?F, Elapse 499] ?I = Inr ?s1" by (simp add: rxF)
  have r2: "run [Rx ?F, Elapse 1] ?s1 = Inr ?s2" by (simp add: rxF)
  have r3: "run [Rx ?F, Elapse 500] ?s1 = Inr ?s3" by (simp add: rxF)
  from failsafe_lifecycle[OF q0 r0 h ch q1 r1 ch q2 r2]
  have a: "CRSF_is_failsafe ?s0" "\<not> CRSF_is_failsafe ?s1" "\<not> CRSF_is_failsafe ?s2"
    by simp_all
  from failsafe_lifecycle[OF q0 r0 h ch q1 r1 ch q3 r3]
  have b: "CRSF_is_failsafe ?s3" by simp
  show ?thesis using r0 r1 r2 r3 a b by blast
qed

end
